theory Spec2Isabelle
  imports Complex_Main
begin

section \<open>JavaScript values used by the attendance engine\<close>

text \<open>
  The engine is TypeScript running in a browser.  A JavaScript number is modelled by
  \<open>jsnum\<close>: \<open>NaN\<close>, or an integer \<open>Fin n\<close>.  The arithmetic of doubles is exact on
  integers below \<open>2^53\<close> in magnitude, and the numbers the classifier and the daily
  summary compute are far below: a time field of fewer than sixteen digits, a minute of
  the day, a count of rows.  The weekly rate divides, and is computed in the binary64
  arithmetic modelled with the aggregator.  Strings are lists of code units below 256.
\<close>

datatype jsnum = NaN | Fin int

fun num_times :: "jsnum \<Rightarrow> jsnum \<Rightarrow> jsnum" where
  "num_times (Fin a) (Fin b) = Fin (a * b)"
| "num_times _ _ = NaN"

fun num_plus :: "jsnum \<Rightarrow> jsnum \<Rightarrow> jsnum" where
  "num_plus (Fin a) (Fin b) = Fin (a + b)"
| "num_plus _ _ = NaN"

text \<open>\<open>a > b\<close> on numbers: false as soon as one side is \<open>NaN\<close>.\<close>

fun num_gt :: "jsnum \<Rightarrow> jsnum \<Rightarrow> bool" where
  "num_gt (Fin a) (Fin b) = (b < a)"
| "num_gt _ _ = False"

subsection \<open>\<open>String.prototype.split\<close> and array indexing\<close>

text \<open>
  \<open>s.split(":")\<close> cuts \<open>s\<close> at every colon and always returns at least one part.
  Reading an array past its end gives \<open>undefined\<close>, here \<open>None\<close>.
\<close>

fun split_from :: "char \<Rightarrow> string \<Rightarrow> string \<Rightarrow> string list" where
  "split_from sep cur [] = [rev cur]"
| "split_from sep cur (c # cs) =
     (if c = sep then rev cur # split_from sep [] cs else split_from sep (c # cur) cs)"

definition split_on :: "char \<Rightarrow> string \<Rightarrow> string list" where
  "split_on sep s = split_from sep [] s"

definition at_index :: "'a list \<Rightarrow> nat \<Rightarrow> 'a option" where
  "at_index xs i = (if i < length xs then Some (xs ! i) else None)"

text \<open>\<open>ToString\<close> of a string or of \<open>undefined\<close>, as \<open>parseInt\<close> applies it to its argument.\<close>

definition ToString :: "string option \<Rightarrow> string" where
  "ToString v = (case v of None \<Rightarrow> ''undefined'' | Some s \<Rightarrow> s)"

subsection \<open>\<open>parseInt\<close> with no radix\<close>

text \<open>
  ECMAScript \<open>parseInt(string)\<close>: skip leading white space, take an optional sign, take
  the prefix \<open>0x\<close>/\<open>0X\<close> as radix 16 and radix 10 otherwise, read the longest run of
  digits of that radix and ignore whatever follows.  No digit at all gives \<open>NaN\<close>.
\<close>

definition isWhiteSpace :: "char \<Rightarrow> bool" where
  "isWhiteSpace c \<longleftrightarrow>
     c \<in> set [CHR 0x09, CHR 0x0A, CHR 0x0B, CHR 0x0C, CHR 0x0D, CHR 0x20, CHR 0xA0]"

definition digitVal :: "char \<Rightarrow> int option" where
  "digitVal = map_of
     [(CHR ''0'', 0), (CHR ''1'', 1), (CHR ''2'', 2), (CHR ''3'', 3), (CHR ''4'', 4),
      (CHR ''5'', 5), (CHR ''6'', 6), (CHR ''7'', 7), (CHR ''8'', 8), (CHR ''9'', 9),
      (CHR ''a'', 10), (CHR ''b'', 11), (CHR ''c'', 12), (CHR ''d'', 13), (CHR ''e'', 14),
      (CHR ''f'', 15),
      (CHR ''A'', 10), (CHR ''B'', 11), (CHR ''C'', 12), (CHR ''D'', 13), (CHR ''E'', 14),
      (CHR ''F'', 15)]"

definition isRadixDigit :: "int \<Rightarrow> char \<Rightarrow> bool" where
  "isRadixDigit R c = (case digitVal c of None \<Rightarrow> False | Some v \<Rightarrow> v < R)"

fun digitsValue :: "int \<Rightarrow> int \<Rightarrow> string \<Rightarrow> int" where
  "digitsValue R acc [] = acc"
| "digitsValue R acc (c # cs) =
     digitsValue R (acc * R + (case digitVal c of None \<Rightarrow> 0 | Some v \<Rightarrow> v)) cs"

definition parseInt :: "string \<Rightarrow> jsnum" where
  "parseInt inputString =
     (let S = dropWhile isWhiteSpace inputString;
          sign = (if take 1 S = ''-'' then - 1 else 1);
          S1 = (if take 1 S = ''+'' \<or> take 1 S = ''-'' then drop 1 S else S);
          hex = (take 2 S1 = ''0x'' \<or> take 2 S1 = ''0X'');
          R = (if hex then 16 else 10);
          S2 = (if hex then drop 2 S1 else S1);
          Z = takeWhile (isRadixDigit R) S2
      in if Z = [] then NaN else Fin (sign * digitsValue R 0 Z))"

subsection \<open>\<open>Date\<close>: time values and the local time zone\<close>

text \<open>
  A \<open>Date\<close> holds a time value: milliseconds since 1970-01-01T00:00:00Z.  The getters
  \<open>getHours\<close>, \<open>getMinutes\<close>, \<open>getDay\<close>, \<open>getDate\<close> and the setter \<open>setDate\<close> work on
  local time, which depends on the time zone of the browser.  The zone is a parameter
  of the model: \<open>utc_offset tz t\<close> is the offset in force at the instant \<open>t\<close>
  (ECMAScript \<open>LocalTZA(t, true)\<close>), \<open>local_offset tz tl\<close> the offset by which the local
  time value \<open>tl\<close> is read back (\<open>LocalTZA(tl, false)\<close>).
\<close>

record TimeZone =
  utc_offset :: "int \<Rightarrow> int"
  local_offset :: "int \<Rightarrow> int"

definition msPerMinute :: int where "msPerMinute = 60000"
definition msPerHour :: int where "msPerHour = 3600000"
definition msPerDay :: int where "msPerDay = 86400000"

definition LocalTime :: "TimeZone \<Rightarrow> int \<Rightarrow> int" where
  "LocalTime tz t = t + utc_offset tz t"

definition UTC_of_local :: "TimeZone \<Rightarrow> int \<Rightarrow> int" where
  "UTC_of_local tz lt = lt - local_offset tz lt"

definition getHours :: "TimeZone \<Rightarrow> int \<Rightarrow> int" where
  "getHours tz t = (LocalTime tz t div msPerHour) mod 24"

definition getMinutes :: "TimeZone \<Rightarrow> int \<Rightarrow> int" where
  "getMinutes tz t = (LocalTime tz t div msPerMinute) mod 60"

text \<open>\<open>getDay\<close>: 0 is Sunday; 1970-01-01 was a Thursday.\<close>

definition getDay :: "TimeZone \<Rightarrow> int \<Rightarrow> int" where
  "getDay tz t = (LocalTime tz t div msPerDay + 4) mod 7"

text \<open>A zone whose offset never changes, such as UTC.\<close>

definition fixed_zone :: "int \<Rightarrow> TimeZone" where
  "fixed_zone off = \<lparr>utc_offset = (\<lambda>_. off), local_offset = (\<lambda>_. off)\<rparr>"

section \<open>Schedule resolver and status classifier (employee dashboard)\<close>

record ScheduleDay =
  day_of_week :: int
  check_in_start :: string
  check_in_end :: string
  check_out_start :: string
  check_out_end :: string
  is_working_day :: bool

text \<open>
  \<open>fetchData\<close> asks the persistence service for the row of today's weekday with
  \<open>.eq("day_of_week", dayOfWeek).single()\<close> and stores the returned \<open>data\<close> in
  \<open>todaySchedule\<close>.  \<open>single\<close> yields the row when exactly one row matches; when the
  request fails, or no row or several rows match, \<open>data\<close> is \<open>null\<close>.
\<close>

definition single :: "'a list \<Rightarrow> 'a option" where
  "single rows = (case rows of [r] \<Rightarrow> Some r | _ \<Rightarrow> None)"

definition fetchTodaySchedule :: "TimeZone \<Rightarrow> bool \<Rightarrow> ScheduleDay list \<Rightarrow> int \<Rightarrow> ScheduleDay option" where
  "fetchTodaySchedule tz request_fails attendance_schedule now =
     (let dayOfWeek = getDay tz now
      in if request_fails then None
         else single (filter (\<lambda>r. day_of_week r = dayOfWeek) attendance_schedule))"

definition checkInEndMinutes :: "ScheduleDay \<Rightarrow> jsnum" where
  "checkInEndMinutes sched =
     (let checkInEndParts = split_on CHR '':'' (check_in_end sched)
      in num_plus (num_times (parseInt (ToString (at_index checkInEndParts 0))) (Fin 60))
                  (parseInt (ToString (at_index checkInEndParts 1))))"

definition currentMinutes :: "TimeZone \<Rightarrow> int \<Rightarrow> int" where
  "currentMinutes tz checkInTime = getHours tz checkInTime * 60 + getMinutes tz checkInTime"

definition determineStatus :: "TimeZone \<Rightarrow> ScheduleDay option \<Rightarrow> int \<Rightarrow> string" where
  "determineStatus tz todaySchedule checkInTime =
     (case todaySchedule of
        None \<Rightarrow> ''present''
      | Some sched \<Rightarrow>
          (if num_gt (Fin (currentMinutes tz checkInTime)) (checkInEndMinutes sched)
           then ''late'' else ''present''))"

text \<open>
  The two fields of \<open>check_in_end\<close> that the classifier reads, and a \<open>TIME\<close> column
  value as the persistence service renders it: \<open>HH:MM:SS\<close>.
\<close>

definition endHours :: "ScheduleDay \<Rightarrow> jsnum" where
  "endHours sched = parseInt (ToString (at_index (split_on CHR '':'' (check_in_end sched)) 0))"

definition endMinutes :: "ScheduleDay \<Rightarrow> jsnum" where
  "endMinutes sched = parseInt (ToString (at_index (split_on CHR '':'' (check_in_end sched)) 1))"

definition digit_char :: "nat \<Rightarrow> char" where
  "digit_char n = ''0123456789'' ! (n mod 10)"

definition pad2 :: "nat \<Rightarrow> string" where
  "pad2 n = [digit_char (n div 10), digit_char n]"

definition time_of_day :: "nat \<Rightarrow> nat \<Rightarrow> nat \<Rightarrow> string" where
  "time_of_day h m s = pad2 h @ '':'' @ pad2 m @ '':'' @ pad2 s"

text \<open>The rows the migration seeds: Monday to Friday are working days.\<close>

definition seeded_day :: "int \<Rightarrow> bool \<Rightarrow> ScheduleDay" where
  "seeded_day dow working =
     \<lparr>day_of_week = dow, check_in_start = ''08:00:00'', check_in_end = ''09:30:00'',
      check_out_start = ''17:00:00'', check_out_end = ''18:30:00'', is_working_day = working\<rparr>"

definition seeded_schedule :: "ScheduleDay list" where
  "seeded_schedule =
     [seeded_day 0 False, seeded_day 1 True, seeded_day 2 True, seeded_day 3 True,
      seeded_day 4 True, seeded_day 5 True, seeded_day 6 False]"

section \<open>Aggregator (admin dashboard)\<close>

text \<open>
  \<open>fetchDashboardData\<close> reads \<open>employeeCount\<close> (a number or \<open>null\<close>) and the rows of
  today's attendance (an array or \<open>null\<close>).  \<open>x || 0\<close> replaces \<open>null\<close>, and \<open>0\<close>
  itself, by \<open>0\<close>; \<open>a?.length\<close> is \<open>undefined\<close> when \<open>a\<close> is \<open>null\<close>.
\<close>

record AttendanceStatusRow =
  row_status :: string

definition or_zero :: "int option \<Rightarrow> int" where
  "or_zero v = (case v of None \<Rightarrow> 0 | Some n \<Rightarrow> n)"

definition length_opt :: "'a list option \<Rightarrow> int option" where
  "length_opt rows = (case rows of None \<Rightarrow> None | Some xs \<Rightarrow> Some (int (length xs)))"

definition totalAttendanceToday :: "AttendanceStatusRow list option \<Rightarrow> int" where
  "totalAttendanceToday todayAttendance = or_zero (length_opt todayAttendance)"

definition absentToday :: "int option \<Rightarrow> AttendanceStatusRow list option \<Rightarrow> int" where
  "absentToday employeeCount todayAttendance =
     max 0 (or_zero employeeCount - totalAttendanceToday todayAttendance)"

text \<open>
  The weekly rate is \<open>Math.round((weekPresent / weekTotal) * 100)\<close>: a division and a
  multiplication of doubles, each giving the binary64 value nearest to the exact result
  (a tie goes to the even mantissa), and then \<open>Math.round\<close>, which gives the nearest
  integer (a tie goes up).  \<open>Double m e\<close> is the double of value \<open>m * 2^e\<close>.
  \<open>nearest_double n d\<close> is the double nearest to the quotient of two positive integers:
  it scales the quotient by a power of two into the range from \<open>2^52\<close> to \<open>2^53\<close> and
  rounds it to an integer mantissa.  The counts at hand are integers below \<open>2^53\<close>,
  which doubles hold exactly, and their quotients are far from the subnormal and the
  overflow range.
\<close>

datatype double = Double int int

function bit_length :: "int \<Rightarrow> int" where
  "bit_length n = (if n \<le> 0 then 0 else 1 + bit_length (n div 2))"
  by pat_completeness auto
termination
  by (relation "measure nat") auto

declare bit_length.simps [simp del]

definition round_half_even :: "int \<Rightarrow> int \<Rightarrow> int" where
  "round_half_even n d =
     (let q = n div d; r = n mod d
      in if 2 * r < d then q else if d < 2 * r then q + 1 else if even q then q else q + 1)"

definition scale_up :: "int \<Rightarrow> int \<Rightarrow> int" where
  "scale_up x k = (if 0 \<le> k then x * 2 ^ nat k else x)"

definition nearest_double :: "int \<Rightarrow> int \<Rightarrow> double" where
  "nearest_double n d =
     (let k0 = 53 + bit_length d - bit_length n;
          k = (if scale_up n k0 < 2 ^ 53 * scale_up d (- k0) then k0 else k0 - 1)
      in Double (round_half_even (scale_up n k) (scale_up d (- k))) (- k))"

definition js_divide :: "int \<Rightarrow> int \<Rightarrow> double" where
  "js_divide p t = (if p = 0 then Double 0 0 else nearest_double p t)"

fun js_times_100 :: "double \<Rightarrow> double" where
  "js_times_100 (Double m e) =
     (if m = 0 then Double 0 0 else nearest_double (scale_up (100 * m) e) (scale_up 1 (- e)))"

fun Math_round :: "double \<Rightarrow> int" where
  "Math_round (Double m e) =
     (if 0 \<le> e then m * 2 ^ nat e else (2 * m + 2 ^ nat (- e)) div 2 ^ (nat (- e) + 1))"

fun double_value :: "double \<Rightarrow> real" where
  "double_value (Double m e) = of_int m * 2 powi e"

declare Math_round.simps [simp del]

text \<open>
  \<open>weekAttendance\<close> is the result of the query for the rows of the week (from Monday to
  Sunday around today): an array, or \<open>null\<close>.
\<close>

definition weekPresent :: "AttendanceStatusRow list option \<Rightarrow> int" where
  "weekPresent weekAttendance =
     or_zero (length_opt (map_option
       (filter (\<lambda>a. row_status a = ''present'' \<or> row_status a = ''late'')) weekAttendance))"

definition weekTotal :: "int option \<Rightarrow> int" where
  "weekTotal employeeCount = or_zero employeeCount * 5"

definition attendanceRate :: "int option \<Rightarrow> AttendanceStatusRow list option \<Rightarrow> int" where
  "attendanceRate employeeCount weekAttendance =
     (if weekTotal employeeCount > 0
      then Math_round (js_times_100 (js_divide (weekPresent weekAttendance) (weekTotal employeeCount)))
      else 0)"

section \<open>Calendar dates and their renderings\<close>

text \<open>
  \<open>Date\<close> counts days in the proleptic Gregorian calendar.  \<open>civil_from_days\<close> gives
  year, month (1 to 12) and day of month of a day number (day 0 is 1970-01-01);
  \<open>days_from_civil\<close> goes back.
\<close>

definition civil_from_days :: "int \<Rightarrow> int \<times> int \<times> int" where
  "civil_from_days z =
     (let z1 = z + 719468;
          era = z1 div 146097;
          doe = z1 - era * 146097;
          yoe = (doe - doe div 1460 + doe div 36524 - doe div 146096) div 365;
          doy = doe - (365 * yoe + yoe div 4 - yoe div 100);
          mp = (5 * doy + 2) div 153;
          d = doy - (153 * mp + 2) div 5 + 1;
          m = (if mp < 10 then mp + 3 else mp - 9);
          y = yoe + era * 400
      in (if m \<le> 2 then y + 1 else y, m, d))"

definition days_from_civil :: "int \<Rightarrow> int \<Rightarrow> int \<Rightarrow> int" where
  "days_from_civil y m d =
     (let y1 = (if m \<le> 2 then y - 1 else y);
          era = y1 div 400;
          yoe = y1 - era * 400;
          doy = (153 * (if m > 2 then m - 3 else m + 9) + 2) div 5 + d - 1;
          doe = yoe * 365 + yoe div 4 - yoe div 100 + doy
      in era * 146097 + doe - 719468)"

definition isLeapYear :: "int \<Rightarrow> bool" where
  "isLeapYear y \<longleftrightarrow> y mod 4 = 0 \<and> (y mod 400 = 0 \<or> y mod 100 \<noteq> 0)"

definition daysInMonth :: "int \<Rightarrow> int \<Rightarrow> int" where
  "daysInMonth y m =
     (if m = 2 then (if isLeapYear y then 29 else 28)
      else if m = 4 \<or> m = 6 \<or> m = 9 \<or> m = 11 then 30 else 31)"

fun show_nat :: "nat \<Rightarrow> string" where
  "show_nat n = (if n < 10 then [digit_char n] else show_nat (n div 10) @ [digit_char n])"

declare show_nat.simps [simp del]

definition pad_zero :: "nat \<Rightarrow> nat \<Rightarrow> string" where
  "pad_zero width n = replicate (width - length (show_nat n)) CHR ''0'' @ show_nat n"

text \<open>
  \<open>toISOString\<close> renders a time value in UTC as \<open>YYYY-MM-DDTHH:mm:ss.sssZ\<close>, with a
  signed six-digit year outside 0 to 9999.
\<close>

definition iso_date :: "int \<Rightarrow> string" where
  "iso_date day =
     (case civil_from_days day of
        (y, m, d) \<Rightarrow>
          (if 0 \<le> y \<and> y \<le> 9999 then pad_zero 4 (nat y)
           else (if y < 0 then ''-'' else ''+'') @ pad_zero 6 (nat \<bar>y\<bar>))
          @ ''-'' @ pad_zero 2 (nat m) @ ''-'' @ pad_zero 2 (nat d))"

definition iso_time :: "int \<Rightarrow> string" where
  "iso_time t =
     pad_zero 2 (nat ((t div msPerHour) mod 24))
     @ '':'' @ pad_zero 2 (nat ((t div msPerMinute) mod 60))
     @ '':'' @ pad_zero 2 (nat ((t div 1000) mod 60))
     @ ''.'' @ pad_zero 3 (nat (t mod 1000))"

definition toISOString :: "int \<Rightarrow> string" where
  "toISOString t = iso_date (t div msPerDay) @ ''T'' @ iso_time t @ ''Z''"

text \<open>
  \<open>new Date(s)\<close> for the value of a \<open>DATE\<close> column.  The persistence service renders
  such a value as \<open>YYYY-MM-DD\<close>, and \<open>Date\<close> reads that form as midnight UTC of the day.
  \<open>None\<close> is the invalid date (time value \<open>NaN\<close>); a string of another shape does not
  come out of a \<open>DATE\<close> column and is given \<open>None\<close> too.
\<close>

definition decimal :: "string \<Rightarrow> int option" where
  "decimal s = (if s \<noteq> [] \<and> list_all (isRadixDigit 10) s then Some (digitsValue 10 0 s) else None)"

definition new_Date :: "string \<Rightarrow> int option" where
  "new_Date s =
     (if length s = 10 \<and> s ! 4 = CHR ''-'' \<and> s ! 7 = CHR ''-'' then
        (case (decimal (take 4 s), decimal (take 2 (drop 5 s)), decimal (drop 8 s)) of
           (Some y, Some m, Some d) \<Rightarrow>
             (if 1 \<le> m \<and> m \<le> 12 \<and> 1 \<le> d \<and> d \<le> daysInMonth y m
              then Some (days_from_civil y m d * msPerDay) else None)
         | _ \<Rightarrow> None)
      else None)"

text \<open>
  \<open>format(date, "MMM d")\<close> of date-fns: the abbreviated month and the day of the month,
  in local time.  It throws \<open>RangeError: Invalid time value\<close> on an invalid date, which
  is \<open>None\<close> here.
\<close>

definition month_abbr :: "int \<Rightarrow> string" where
  "month_abbr m =
     [''Jan'', ''Feb'', ''Mar'', ''Apr'', ''May'', ''Jun'',
      ''Jul'', ''Aug'', ''Sep'', ''Oct'', ''Nov'', ''Dec''] ! nat ((m - 1) mod 12)"

definition format_MMM_d :: "TimeZone \<Rightarrow> int option \<Rightarrow> string option" where
  "format_MMM_d tz date =
     (case date of
        None \<Rightarrow> None
      | Some t \<Rightarrow>
          (case civil_from_days (LocalTime tz t div msPerDay) of
             (y, m, d) \<Rightarrow> Some (month_abbr m @ '' '' @ show_nat (nat d))))"

text \<open>
  \<open>d.setDate(d.getDate() + 1)\<close> moves a date one calendar day ahead in local time: the
  local time value grows by one day (\<open>MakeDay\<close> carries a day of month past the end of
  the month into the next one), and the result is read back as a UTC time value.
\<close>

definition setDate_next :: "TimeZone \<Rightarrow> int \<Rightarrow> int" where
  "setDate_next tz d = UTC_of_local tz (LocalTime tz d + msPerDay)"

text \<open>
  Eastern Time (America/New\_York) during 2024: UTC-5, and UTC-4 from 2024-03-10T07:00Z
  until 2024-11-03T06:00Z.  A local time that occurs twice when the clocks go back
  is read with the offset before the change, as is one skipped when they go forward.
\<close>

definition new_york_2024 :: TimeZone where
  "new_york_2024 =
     \<lparr>utc_offset = (\<lambda>t. if 1710054000000 \<le> t \<and> t < 1730613600000 then - 14400000 else - 18000000),
      local_offset = (\<lambda>lt. if 1710054000000 - 14400000 \<le> lt \<and> lt < 1730613600000 - 14400000
                            then - 14400000 else - 18000000)\<rparr>"

section \<open>Leave reconciler (admin leave page)\<close>

text \<open>
  The persistence service holds three tables the leave page writes to.  A row of
  \<open>leave_requests\<close> is a \<open>LeaveRow\<close>; the page holds each loaded row together with the
  requester's name (\<open>request.user?.full_name\<close>) as a \<open>LeaveRequest\<close>.  The rows
  inserted into \<open>attendance\<close> and \<open>notifications\<close> carry the fields the page sends;
  their field names have a prefix where the source reuses \<open>user_id\<close>, \<open>status\<close>, \<open>notes\<close>,
  \<open>title\<close>, \<open>message\<close> and \<open>type\<close>, and \<open>id\<close> is written \<open>id'\<close>.
\<close>

record LeaveRow =
  id' :: string
  user_id :: string
  start_date :: string
  end_date :: string
  reason :: "string option"
  status :: string
  approved_by :: "string option"
  approved_at :: "string option"

record LeaveRequest = LeaveRow +
  user_full_name :: "string option"

record AttendanceInsert =
  att_user_id :: string
  check_in :: string
  att_status :: string
  att_notes :: string

record NotificationInsert =
  ntf_user_id :: string
  ntf_title :: string
  ntf_message :: string
  ntf_type :: string
  related_type :: string
  related_id :: string

record Database =
  leave_requests :: "LeaveRow list"
  attendance :: "AttendanceInsert list"
  notifications :: "NotificationInsert list"

text \<open>
  A call to the persistence service does not throw: it resolves to a result whose
  \<open>error\<close> field is \<open>null\<close> or an error object.  \<open>Faults\<close> says, for one run of a
  handler, which of its calls fail; a failed call writes nothing.
\<close>

record DbError =
  err_message :: string
  err_instanceof_Error :: bool

record Faults =
  update_error :: "DbError option"
  attendance_insert_error :: "DbError option"
  notification_insert_error :: "DbError option"

definition no_faults :: Faults where
  "no_faults = \<lparr>update_error = None, attendance_insert_error = None, notification_insert_error = None\<rparr>"

text \<open>What the admin sees: the toast a handler shows.\<close>

record Toast =
  toast_title :: string
  toast_description :: string
  toast_destructive :: bool

record Outcome =
  db_after :: Database
  toast :: "Toast option"

definition error_toast :: "string \<Rightarrow> Toast" where
  "error_toast description =
     \<lparr>toast_title = ''Error'', toast_description = description, toast_destructive = True\<rparr>"

definition name_text :: "string option \<Rightarrow> string" where
  "name_text n = (case n of None \<Rightarrow> ''undefined'' | Some s \<Rightarrow> s)"

text \<open>\<open>.update({status, approved_by, approved_at}).eq("id", request.id)\<close>\<close>

definition update_leave_request :: "string \<Rightarrow> string \<Rightarrow> string \<Rightarrow> string \<Rightarrow> LeaveRow list \<Rightarrow> LeaveRow list" where
  "update_leave_request rid new_status approver stamp rows =
     map (\<lambda>r. if id' r = rid
               then r\<lparr>status := new_status, approved_by := Some approver, approved_at := Some stamp\<rparr>
               else r) rows"

text \<open>The record pushed for one day \<open>d\<close> of the loop.\<close>

definition leaveRecord :: "LeaveRequest \<Rightarrow> int \<Rightarrow> AttendanceInsert" where
  "leaveRecord request d =
     \<lparr>att_user_id = user_id request,
      check_in = toISOString d,
      att_status = ''leave'',
      att_notes = ''Approved leave: '' @
        (case reason request of
           None \<Rightarrow> ''No reason provided''
         | Some r \<Rightarrow> if r = [] then ''No reason provided'' else r)\<rparr>"

text \<open>
  \<open>for (let d = new Date(startDate); d <= endDate; d.setDate(d.getDate() + 1))\<close>.
  Whether the loop ends depends on the time zone, so its result is an option: \<open>None\<close>
  stands for a loop that runs forever.
\<close>

partial_function (option) leaveDaysLoop ::
  "TimeZone \<Rightarrow> LeaveRequest \<Rightarrow> int \<Rightarrow> int \<Rightarrow> AttendanceInsert list \<Rightarrow> AttendanceInsert list option" where
  "leaveDaysLoop tz request endDate d leaveAttendanceRecords =
     (if d \<le> endDate
      then leaveDaysLoop tz request endDate (setDate_next tz d)
             (leaveAttendanceRecords @ [leaveRecord request d])
      else Some leaveAttendanceRecords)"

declare leaveDaysLoop.simps [code]

text \<open>A comparison with an invalid date is false, so the loop body never runs then.\<close>

definition leaveAttendanceRecords :: "TimeZone \<Rightarrow> LeaveRequest \<Rightarrow> AttendanceInsert list option" where
  "leaveAttendanceRecords tz request =
     (case (new_Date (start_date request), new_Date (end_date request)) of
        (Some startDate, Some endDate) \<Rightarrow> leaveDaysLoop tz request endDate startDate []
      | _ \<Rightarrow> Some [])"

definition approvedNotification :: "LeaveRequest \<Rightarrow> string \<Rightarrow> string \<Rightarrow> NotificationInsert" where
  "approvedNotification request from_text to_text =
     \<lparr>ntf_user_id = user_id request,
      ntf_title = ''Leave Request Approved'',
      ntf_message = ''Your leave request from '' @ from_text @ '' to '' @ to_text @ '' has been approved.'',
      ntf_type = ''success'',
      related_type = ''leave'',
      related_id = id' request\<rparr>"

definition declinedNotification :: "LeaveRequest \<Rightarrow> string \<Rightarrow> string \<Rightarrow> NotificationInsert" where
  "declinedNotification request from_text to_text =
     \<lparr>ntf_user_id = user_id request,
      ntf_title = ''Leave Request Declined'',
      ntf_message = ''Your leave request from '' @ from_text @ '' to '' @ to_text @ '' has been declined.'',
      ntf_type = ''error'',
      related_type = ''leave'',
      related_id = id' request\<rparr>"

text \<open>
  \<open>handleApprove\<close>.  \<open>user\<close> is the signed-in admin's id, or \<open>None\<close>; \<open>now\<close> is the
  clock read by \<open>new Date()\<close>.  Only the result of the update is inspected; the two
  inserts are awaited and their results dropped.  An exception (the update's error, or
  the \<open>RangeError\<close> of \<open>format\<close>) ends in the \<open>catch\<close> block, which shows the error toast.
\<close>

definition handleApprove ::
  "TimeZone \<Rightarrow> Faults \<Rightarrow> string option \<Rightarrow> int \<Rightarrow> LeaveRequest \<Rightarrow> Database \<Rightarrow> Outcome option" where
  "handleApprove tz faults user now request db =
     (case user of
        None \<Rightarrow> Some \<lparr>db_after = db, toast = None\<rparr>
      | Some uid \<Rightarrow>
          (case update_error faults of
             Some updateError \<Rightarrow>
               Some \<lparr>db_after = db,
                     toast = Some (error_toast
                       (if err_message updateError = [] then ''Failed to approve leave request''
                        else err_message updateError))\<rparr>
           | None \<Rightarrow>
               (let db1 = db\<lparr>leave_requests :=
                            update_leave_request (id' request) ''approved'' uid (toISOString now)
                              (leave_requests db)\<rparr>
                in case leaveAttendanceRecords tz request of
                     None \<Rightarrow> None
                   | Some records \<Rightarrow>
                       (let db2 = (if records \<noteq> [] \<and> attendance_insert_error faults = None
                                   then db1\<lparr>attendance := attendance db1 @ records\<rparr> else db1)
                        in case (format_MMM_d tz (new_Date (start_date request)),
                                 format_MMM_d tz (new_Date (end_date request))) of
                             (Some from_text, Some to_text) \<Rightarrow>
                               (let db3 = (if notification_insert_error faults = None
                                           then db2\<lparr>notifications := notifications db2 @
                                                  [approvedNotification request from_text to_text]\<rparr>
                                           else db2)
                                in Some \<lparr>db_after = db3,
                                         toast = Some \<lparr>toast_title = ''Leave approved'',
                                           toast_description = ''Leave request for '' @
                                             name_text (user_full_name request) @ '' has been approved.'',
                                           toast_destructive = False\<rparr>\<rparr>)
                           | _ \<Rightarrow>
                               Some \<lparr>db_after = db2,
                                     toast = Some (error_toast ''Invalid time value'')\<rparr>))))"

text \<open>
  \<open>handleDecline\<close>: the same update with status \<open>declined\<close>, then the notification.
  It does not touch \<open>attendance\<close>.  Its \<open>catch\<close> block shows the message of the
  exception only when that is an \<open>Error\<close> instance.
\<close>

definition handleDecline ::
  "TimeZone \<Rightarrow> Faults \<Rightarrow> string option \<Rightarrow> int \<Rightarrow> LeaveRequest \<Rightarrow> Database \<Rightarrow> Outcome" where
  "handleDecline tz faults user now request db =
     (case user of
        None \<Rightarrow> \<lparr>db_after = db, toast = None\<rparr>
      | Some uid \<Rightarrow>
          (case update_error faults of
             Some error \<Rightarrow>
               \<lparr>db_after = db,
                toast = Some (error_toast
                  (if err_instanceof_Error error then err_message error
                   else ''Failed to decline leave request''))\<rparr>
           | None \<Rightarrow>
               (let db1 = db\<lparr>leave_requests :=
                            update_leave_request (id' request) ''declined'' uid (toISOString now)
                              (leave_requests db)\<rparr>
                in case (format_MMM_d tz (new_Date (start_date request)),
                         format_MMM_d tz (new_Date (end_date request))) of
                     (Some from_text, Some to_text) \<Rightarrow>
                       (let db2 = (if notification_insert_error faults = None
                                   then db1\<lparr>notifications := notifications db1 @
                                          [declinedNotification request from_text to_text]\<rparr>
                                   else db1)
                        in \<lparr>db_after = db2,
                            toast = Some \<lparr>toast_title = ''Leave declined'',
                              toast_description = ''Leave request for '' @
                                name_text (user_full_name request) @ '' has been declined.'',
                              toast_destructive = False\<rparr>\<rparr>)
                   | _ \<Rightarrow> \<lparr>db_after = db1, toast = Some (error_toast ''Invalid time value'')\<rparr>)))"

text \<open>
  The page sorts the loaded requests into three tabs by their status and renders a card
  for each; only the cards of the pending tab get the approve and decline buttons
  (\<open>renderRequestCard(request, true)\<close>).
\<close>

definition pendingRequests :: "LeaveRequest list \<Rightarrow> LeaveRequest list" where
  "pendingRequests requests = filter (\<lambda>r. status r = ''pending'') requests"

definition approvedRequests :: "LeaveRequest list \<Rightarrow> LeaveRequest list" where
  "approvedRequests requests = filter (\<lambda>r. status r = ''approved'') requests"

definition declinedRequests :: "LeaveRequest list \<Rightarrow> LeaveRequest list" where
  "declinedRequests requests = filter (\<lambda>r. status r = ''declined'') requests"

record RequestCard =
  card_request :: LeaveRequest
  showActions :: bool

definition renderRequestCard :: "LeaveRequest \<Rightarrow> bool \<Rightarrow> RequestCard" where
  "renderRequestCard request show = \<lparr>card_request = request, showActions = show\<rparr>"

definition renderedCards :: "LeaveRequest list \<Rightarrow> RequestCard list" where
  "renderedCards requests =
     map (\<lambda>request. renderRequestCard request True) (pendingRequests requests)
     @ map (\<lambda>request. renderRequestCard request False) (approvedRequests requests)
     @ map (\<lambda>request. renderRequestCard request False) (declinedRequests requests)"

text \<open>An example request, its row, and a store that holds only that row.\<close>

definition example_row :: "string \<Rightarrow> string \<Rightarrow> LeaveRow" where
  "example_row first_day last_day =
     \<lparr>id' = ''r1'', user_id = ''u7'', start_date = first_day, end_date = last_day,
      reason = Some ''Family event'', status = ''pending'', approved_by = None, approved_at = None\<rparr>"

definition example_request :: "string \<Rightarrow> string \<Rightarrow> LeaveRequest" where
  "example_request first_day last_day =
     LeaveRow.extend (example_row first_day last_day) \<lparr>user_full_name = Some ''Dana''\<rparr>"

definition example_db :: "string \<Rightarrow> string \<Rightarrow> Database" where
  "example_db first_day last_day =
     \<lparr>leave_requests = [example_row first_day last_day], attendance = [], notifications = []\<rparr>"

text \<open>The number of loop rounds between two time values one day apart per round.\<close>

definition daysCovered :: "int \<Rightarrow> int \<Rightarrow> nat" where
  "daysCovered startDate endDate = nat ((endDate - startDate) div msPerDay + 1)"

text \<open>Running a handler on the store that an earlier run left.\<close>

definition after_outcome :: "Outcome option \<Rightarrow> (Database \<Rightarrow> Outcome option) \<Rightarrow> Outcome option" where
  "after_outcome previous handler = (case previous of None \<Rightarrow> None | Some out \<Rightarrow> handler (db_after out))"

section \<open>Properties of the status classifier\<close>

lemma digit_cases: "n < (10::nat) \<Longrightarrow> n \<in> {0, 1, 2, 3, 4, 5, 6, 7, 8, 9}"
  by auto

lemma digit_char_facts:
  assumes "n < 10"
  shows "digitVal (digit_char n) = Some (int n)"
    and "\<not> isWhiteSpace (digit_char n)"
    and "digit_char n \<noteq> CHR ''-''" and "digit_char n \<noteq> CHR ''+''"
    and "digit_char n \<noteq> CHR ''x''" and "digit_char n \<noteq> CHR ''X''"
    and "digit_char n \<noteq> CHR '':''"
  using digit_cases [OF assms]
  by (auto simp: digit_char_def digitVal_def isWhiteSpace_def)

lemma parseInt_two_digits:
  assumes "a < 10" "b < 10"
  shows "parseInt [digit_char a, digit_char b] = Fin (int (10 * a + b))"
  using digit_char_facts [OF assms(1)] digit_char_facts [OF assms(2)] assms
  by (simp add: parseInt_def isRadixDigit_def)

lemma pad2_parse: "n < 100 \<Longrightarrow> parseInt (pad2 n) = Fin (int n)"
proof -
  assume n: "n < 100"
  have a: "n div 10 < 10" using n by simp
  have b: "n mod 10 < 10" by simp
  have "digit_char n = digit_char (n mod 10)" by (simp add: digit_char_def)
  then have "parseInt (pad2 n) = Fin (int (10 * (n div 10) + n mod 10))"
    using parseInt_two_digits [OF a b] by (simp add: pad2_def)
  then show ?thesis by simp
qed

lemma split_time_of_day:
  "split_on CHR '':'' (time_of_day h m s) = [pad2 h, pad2 m, pad2 s]"
proof -
  have ne: "\<And>n. digit_char n \<noteq> CHR '':''"
    using digit_char_facts(7) [of "n mod 10" for n] by (simp add: digit_char_def)
  show ?thesis
    by (simp add: split_on_def time_of_day_def pad2_def ne)
qed

text \<open>A well-formed \<open>HH:MM:SS\<close> value is read as \<open>60 * HH + MM\<close>; the seconds are dropped.\<close>

lemma checkInEndMinutes_time_of_day:
  assumes "h < 100" "m < 100"
  shows "checkInEndMinutes (sched\<lparr>check_in_end := time_of_day h m s\<rparr>) = Fin (int h * 60 + int m)"
  by (simp add: checkInEndMinutes_def split_time_of_day at_index_def ToString_def
      pad2_parse [OF assms(1)] pad2_parse [OF assms(2)])

lemma checkInEndMinutes_fields:
  "checkInEndMinutes sched = num_plus (num_times (endHours sched) (Fin 60)) (endMinutes sched)"
  by (simp add: checkInEndMinutes_def endHours_def endMinutes_def Let_def)

lemma determineStatus_late_iff:
  "determineStatus tz (Some sched) t = ''late'' \<longleftrightarrow>
     (\<exists>e. checkInEndMinutes sched = Fin e \<and> e < currentMinutes tz t)"
  by (cases "checkInEndMinutes sched") (simp_all add: determineStatus_def)

lemma determineStatus_values:
  "determineStatus tz todaySchedule t = ''late'' \<or> determineStatus tz todaySchedule t = ''present''"
  by (simp add: determineStatus_def split: option.splits)

lemma checkInEndMinutes_0930:
  "checkInEndMinutes (sched\<lparr>check_in_end := ''09:30:00''\<rparr>) = Fin 570"
  by (simp add: checkInEndMinutes_def split_on_def at_index_def ToString_def parseInt_def
      isWhiteSpace_def isRadixDigit_def digitVal_def)

text \<open>
  Claim C2.  With a schedule row at hand, the classifier answers \<open>late\<close> exactly when
  the minutes since local midnight of the check-in instant are strictly above the
  minutes parsed from \<open>check_in_end\<close>, and \<open>present\<close> in every other case.  For a
  well-formed value \<open>HH:MM:SS\<close> the parsed minutes are \<open>60 * HH + MM\<close>.  With
  \<open>check_in_end = 09:30:00\<close>, a check-in at 08:59 or at 09:30 is \<open>present\<close> and one at
  09:31 is \<open>late\<close>: the boundary is inclusive.
\<close>

theorem C2_late_iff_after_check_in_end:
  "(determineStatus tz (Some sched) t = ''late'' \<longleftrightarrow>
      (\<exists>e. checkInEndMinutes sched = Fin e \<and> e < getHours tz t * 60 + getMinutes tz t))
   \<and> (determineStatus tz (Some sched) t \<noteq> ''late'' \<longrightarrow>
        determineStatus tz (Some sched) t = ''present'')
   \<and> (h < 100 \<and> m < 100 \<longrightarrow>
        (determineStatus tz (Some (sched\<lparr>check_in_end := time_of_day h m s\<rparr>)) t = ''late'' \<longleftrightarrow>
           int h * 60 + int m < getHours tz t * 60 + getMinutes tz t))
   \<and> (getHours tz t = 8 \<and> getMinutes tz t = 59 \<longrightarrow>
        determineStatus tz (Some (sched\<lparr>check_in_end := ''09:30:00''\<rparr>)) t = ''present'')
   \<and> (getHours tz t = 9 \<and> getMinutes tz t = 30 \<longrightarrow>
        determineStatus tz (Some (sched\<lparr>check_in_end := ''09:30:00''\<rparr>)) t = ''present'')
   \<and> (getHours tz t = 9 \<and> getMinutes tz t = 31 \<longrightarrow>
        determineStatus tz (Some (sched\<lparr>check_in_end := ''09:30:00''\<rparr>)) t = ''late'')"
proof -
  have iff: "determineStatus tz (Some sched) t = ''late'' \<longleftrightarrow>
      (\<exists>e. checkInEndMinutes sched = Fin e \<and> e < getHours tz t * 60 + getMinutes tz t)"
    using determineStatus_late_iff [of tz sched t] by (simp add: currentMinutes_def)
  have other: "determineStatus tz (Some sched) t \<noteq> ''late'' \<longrightarrow>
        determineStatus tz (Some sched) t = ''present''"
    using determineStatus_values [of tz "Some sched" t] by blast
  have wf: "h < 100 \<and> m < 100 \<longrightarrow>
        (determineStatus tz (Some (sched\<lparr>check_in_end := time_of_day h m s\<rparr>)) t = ''late'' \<longleftrightarrow>
           int h * 60 + int m < getHours tz t * 60 + getMinutes tz t)"
    by (simp add: determineStatus_late_iff checkInEndMinutes_time_of_day currentMinutes_def)
  have ex: "determineStatus tz (Some (sched\<lparr>check_in_end := ''09:30:00''\<rparr>)) t = ''late'' \<longleftrightarrow>
      570 < getHours tz t * 60 + getMinutes tz t"
    by (simp add: determineStatus_late_iff checkInEndMinutes_0930 currentMinutes_def)
  have a: "getHours tz t = 8 \<and> getMinutes tz t = 59 \<longrightarrow>
        determineStatus tz (Some (sched\<lparr>check_in_end := ''09:30:00''\<rparr>)) t = ''present''"
    using ex determineStatus_values [of tz "Some (sched\<lparr>check_in_end := ''09:30:00''\<rparr>)" t]
    by auto
  have b: "getHours tz t = 9 \<and> getMinutes tz t = 30 \<longrightarrow>
        determineStatus tz (Some (sched\<lparr>check_in_end := ''09:30:00''\<rparr>)) t = ''present''"
    using ex determineStatus_values [of tz "Some (sched\<lparr>check_in_end := ''09:30:00''\<rparr>)" t]
    by auto
  have c: "getHours tz t = 9 \<and> getMinutes tz t = 31 \<longrightarrow>
        determineStatus tz (Some (sched\<lparr>check_in_end := ''09:30:00''\<rparr>)) t = ''late''"
    using ex by auto
  from iff other wf a b c show ?thesis by blast
qed

theorem C2_witness:
  "determineStatus (fixed_zone 0) (Some (seeded_day 1 True)) 34260000 = ''late''
   \<and> determineStatus (fixed_zone 0) (Some (seeded_day 1 True)) 34200000 = ''present''
   \<and> determineStatus (fixed_zone 0) (Some (seeded_day 1 True)) 32340000 = ''present''
   \<and> determineStatus (fixed_zone 0)
        (Some ((seeded_day 1 True)\<lparr>check_in_end := time_of_day 9 30 0\<rparr>)) 34260000 = ''late''
   \<and> determineStatus (fixed_zone 0)
        (Some ((seeded_day 1 True)\<lparr>check_in_end := time_of_day 9 30 0\<rparr>)) 34200000 = ''present''"
proof -
  let ?tz = "fixed_zone 0" and ?s = "seeded_day 1 True"
  have r: "?s\<lparr>check_in_end := ''09:30:00''\<rparr> = ?s"
    by (simp add: seeded_day_def)
  have t1: "getHours ?tz 34260000 = 9 \<and> getMinutes ?tz 34260000 = 31"
    by (simp add: getHours_def getMinutes_def LocalTime_def fixed_zone_def msPerHour_def msPerMinute_def)
  have t2: "getHours ?tz 34200000 = 9 \<and> getMinutes ?tz 34200000 = 30"
    by (simp add: getHours_def getMinutes_def LocalTime_def fixed_zone_def msPerHour_def msPerMinute_def)
  have t3: "getHours ?tz 32340000 = 8 \<and> getMinutes ?tz 32340000 = 59"
    by (simp add: getHours_def getMinutes_def LocalTime_def fixed_zone_def msPerHour_def msPerMinute_def)
  have hm: "(9::nat) < 100 \<and> (30::nat) < 100" by simp
  note late = C2_late_iff_after_check_in_end [of ?tz ?s 34260000 9 30 0,
      THEN conjunct2, THEN conjunct2, THEN conjunct2, THEN conjunct2, THEN conjunct2, THEN mp, OF t1]
  note edge = C2_late_iff_after_check_in_end [of ?tz ?s 34200000 9 30 0,
      THEN conjunct2, THEN conjunct2, THEN conjunct2, THEN conjunct2, THEN conjunct1, THEN mp, OF t2]
  note early = C2_late_iff_after_check_in_end [of ?tz ?s 32340000 9 30 0,
      THEN conjunct2, THEN conjunct2, THEN conjunct2, THEN conjunct1, THEN mp, OF t3]
  note wf1 = C2_late_iff_after_check_in_end [of ?tz ?s 34260000 9 30 0,
      THEN conjunct2, THEN conjunct2, THEN conjunct1, THEN mp, OF hm]
  note wf2 = C2_late_iff_after_check_in_end [of ?tz ?s 34200000 9 30 0,
      THEN conjunct2, THEN conjunct2, THEN conjunct1, THEN mp, OF hm]
  have l: "determineStatus ?tz (Some (?s\<lparr>check_in_end := time_of_day 9 30 0\<rparr>)) 34260000 = ''late''"
    using wf1 t1 by simp
  have nl: "determineStatus ?tz (Some (?s\<lparr>check_in_end := time_of_day 9 30 0\<rparr>)) 34200000 \<noteq> ''late''"
    using wf2 t2 by simp
  note p = C2_late_iff_after_check_in_end [of ?tz "?s\<lparr>check_in_end := time_of_day 9 30 0\<rparr>" 34200000 9 30 0,
      THEN conjunct2, THEN conjunct1, THEN mp, OF nl]
  from late edge early l p show ?thesis unfolding r by (intro conjI)
qed

text \<open>
  Claim C5.  When no schedule row is at hand for the day (the lookup failed, or did not
  find exactly one row of that weekday, so that \<open>todaySchedule\<close> is \<open>null\<close>), the
  classifier answers \<open>present\<close> for every check-in instant; it has no failing branch.
\<close>

theorem C5_no_schedule_is_present:
  "determineStatus tz None t = ''present''
   \<and> (request_fails \<or> length (filter (\<lambda>r. day_of_week r = getDay tz now) attendance_schedule) \<noteq> 1
        \<longrightarrow> determineStatus tz (fetchTodaySchedule tz request_fails attendance_schedule now) t = ''present'')"
proof -
  have "length rows \<noteq> 1 \<Longrightarrow> single rows = None" for rows :: "ScheduleDay list"
    by (cases rows; cases "tl rows") (auto simp: single_def split: list.splits)
  then show ?thesis
    by (auto simp: determineStatus_def fetchTodaySchedule_def)
qed

theorem C5_witness:
  "determineStatus (fixed_zone 0) (fetchTodaySchedule (fixed_zone 0) False [] 34260000) 34260000 = ''present''
   \<and> determineStatus (fixed_zone 0) (fetchTodaySchedule (fixed_zone 0) True seeded_schedule 34260000) 34260000 = ''present''
   \<and> determineStatus (fixed_zone 0) (fetchTodaySchedule (fixed_zone 0) False seeded_schedule 34260000) 34260000 = ''late''"
proof -
  have late: "determineStatus (fixed_zone 0) (fetchTodaySchedule (fixed_zone 0) False seeded_schedule 34260000) 34260000 = ''late''"
    by (simp add: fetchTodaySchedule_def seeded_schedule_def seeded_day_def getDay_def single_def
        LocalTime_def fixed_zone_def msPerDay_def determineStatus_def currentMinutes_def
        getHours_def getMinutes_def msPerHour_def msPerMinute_def
        checkInEndMinutes_def split_on_def at_index_def ToString_def parseInt_def
        isWhiteSpace_def isRadixDigit_def digitVal_def)
  show ?thesis
    using C5_no_schedule_is_present [of "fixed_zone 0" 34260000 False 34260000 "[]"]
      C5_no_schedule_is_present [of "fixed_zone 0" 34260000 True 34260000 seeded_schedule] late
    by simp
qed











lemma same_minute:
  fixes x k :: int
  assumes "0 \<le> x mod 60000 + k" "x mod 60000 + k < 60000"
  shows "(x + k) div 60000 = x div 60000"
proof -
  have "x + k = x div 60000 * 60000 + (x mod 60000 + k)" by simp
  then have "(x + k) div 60000 = x div 60000 + (x mod 60000 + k) div 60000"
    by (metis add.commute div_mult_self2 zero_neq_numeral mult.commute)
  then show ?thesis using assms by simp
qed

lemma hour_of_minute: "(x::int) div 3600000 = (x div 60000) div 60"
  by (simp add: zdiv_zmult2_eq)

text \<open>
  Claim C10.  The status depends on the check-in instant only through its local hour and
  minute, and on the schedule row only through the hours and minutes fields of
  \<open>check_in_end\<close>.  So it ignores \<open>is_working_day\<close>, \<open>check_in_start\<close>,
  \<open>check_out_start\<close>, \<open>check_out_end\<close> and \<open>day_of_week\<close>, and it ignores the seconds
  and milliseconds of the instant: moving the instant inside its minute changes nothing.
\<close>

theorem C10_status_depends_only_on_hour_and_minute:
  "(getHours tz1 t1 = getHours tz2 t2 \<and> getMinutes tz1 t1 = getMinutes tz2 t2
      \<and> endHours s1 = endHours s2 \<and> endMinutes s1 = endMinutes s2
      \<longrightarrow> determineStatus tz1 (Some s1) t1 = determineStatus tz2 (Some s2) t2)
   \<and> determineStatus tz1
        (Some (s1\<lparr>is_working_day := w, check_in_start := a, check_out_start := b,
                   check_out_end := c, day_of_week := d\<rparr>)) t1
      = determineStatus tz1 (Some s1) t1
   \<and> (0 \<le> LocalTime tz1 t1 mod msPerMinute + k \<and> LocalTime tz1 t1 mod msPerMinute + k < msPerMinute
        \<and> utc_offset tz1 (t1 + k) = utc_offset tz1 t1
      \<longrightarrow> determineStatus tz1 (Some s1) (t1 + k) = determineStatus tz1 (Some s1) t1)"
proof -
  have gen: "getHours tz1 t1 = getHours tz2 t2 \<and> getMinutes tz1 t1 = getMinutes tz2 t2
      \<and> endHours s1 = endHours s2 \<and> endMinutes s1 = endMinutes s2
      \<longrightarrow> determineStatus tz1 (Some s1) t1 = determineStatus tz2 (Some s2) t2"
    by (simp add: determineStatus_def currentMinutes_def checkInEndMinutes_fields)
  have fields: "determineStatus tz1
        (Some (s1\<lparr>is_working_day := w, check_in_start := a, check_out_start := b,
                   check_out_end := c, day_of_week := d\<rparr>)) t1
      = determineStatus tz1 (Some s1) t1"
    by (simp add: determineStatus_def checkInEndMinutes_def)
  have secs: "determineStatus tz1 (Some s1) (t1 + k) = determineStatus tz1 (Some s1) t1"
    if h: "0 \<le> LocalTime tz1 t1 mod msPerMinute + k \<and> LocalTime tz1 t1 mod msPerMinute + k < msPerMinute
        \<and> utc_offset tz1 (t1 + k) = utc_offset tz1 t1"
  proof -
    have lt: "LocalTime tz1 (t1 + k) = LocalTime tz1 t1 + k"
      using h by (simp add: LocalTime_def)
    have m: "(LocalTime tz1 t1 + k) div 60000 = LocalTime tz1 t1 div 60000"
      using h same_minute [of "LocalTime tz1 t1" k] by (simp add: msPerMinute_def)
    have "getMinutes tz1 (t1 + k) = getMinutes tz1 t1"
      by (simp add: getMinutes_def lt m msPerMinute_def)
    moreover have "getHours tz1 (t1 + k) = getHours tz1 t1"
      by (simp add: getHours_def lt msPerHour_def hour_of_minute m)
    ultimately show ?thesis
      by (simp add: determineStatus_def currentMinutes_def)
  qed
  from gen fields secs show ?thesis by blast
qed

theorem C10_witness:
  "determineStatus (fixed_zone 0) (Some (seeded_day 0 False)) 34260000
     = determineStatus (fixed_zone 0) (Some (seeded_day 1 True)) (34260000 + 59999)
   \<and> determineStatus (fixed_zone 0) (Some (seeded_day 0 False)) 34260000 = ''late''
   \<and> determineStatus (fixed_zone 0) (Some (seeded_day 0 False)) (34260000 + 59999)
     = determineStatus (fixed_zone 0) (Some (seeded_day 0 False)) 34260000"
proof -
  let ?tz = "fixed_zone 0"
  have e: "endHours (seeded_day 0 False) = endHours (seeded_day 1 True)
           \<and> endMinutes (seeded_day 0 False) = endMinutes (seeded_day 1 True)"
    by (simp add: endHours_def endMinutes_def seeded_day_def)
  have t: "getHours ?tz 34260000 = getHours ?tz (34260000 + 59999)
           \<and> getMinutes ?tz 34260000 = getMinutes ?tz (34260000 + 59999)"
    by (simp add: getHours_def getMinutes_def LocalTime_def fixed_zone_def msPerHour_def msPerMinute_def)
  have l: "determineStatus ?tz (Some (seeded_day 0 False)) 34260000 = ''late''"
    by (simp add: seeded_day_def determineStatus_def currentMinutes_def
        LocalTime_def fixed_zone_def getHours_def getMinutes_def msPerHour_def msPerMinute_def
        checkInEndMinutes_def split_on_def at_index_def ToString_def parseInt_def
        isWhiteSpace_def isRadixDigit_def digitVal_def)
  from t e have
    "getHours ?tz 34260000 = getHours ?tz (34260000 + 59999)
     \<and> getMinutes ?tz 34260000 = getMinutes ?tz (34260000 + 59999)
     \<and> endHours (seeded_day 0 False) = endHours (seeded_day 1 True)
     \<and> endMinutes (seeded_day 0 False) = endMinutes (seeded_day 1 True)"
    by blast
  note a = C10_status_depends_only_on_hour_and_minute
    [of ?tz 34260000 ?tz "34260000 + 59999" "seeded_day 0 False" "seeded_day 1 True",
      THEN conjunct1, THEN mp, OF this]
  have s: "0 \<le> LocalTime ?tz 34260000 mod msPerMinute + 59999
      \<and> LocalTime ?tz 34260000 mod msPerMinute + 59999 < msPerMinute
      \<and> utc_offset ?tz (34260000 + 59999) = utc_offset ?tz 34260000"
    by (simp add: LocalTime_def fixed_zone_def msPerMinute_def)
  note b = C10_status_depends_only_on_hour_and_minute
    [of ?tz 34260000 _ _ "seeded_day 0 False" _ _ _ _ _ _ 59999,
      THEN conjunct2, THEN conjunct2, THEN mp, OF s]
  from a l b show ?thesis by (intro conjI)
qed

section \<open>Properties of the leave reconciler\<close>

lemma setDate_next_fixed_zone: "setDate_next (fixed_zone off) d = d + msPerDay"
  by (simp add: setDate_next_def UTC_of_local_def LocalTime_def fixed_zone_def)

lemma daysCovered_step:
  assumes "d \<le> endDate"
  shows "daysCovered d endDate = Suc (daysCovered (d + msPerDay) endDate)"
proof -
  have "(endDate - (d + msPerDay)) div msPerDay = (endDate - d) div msPerDay - 1"
    by (simp add: msPerDay_def algebra_simps div_diff)
  moreover have "0 \<le> (endDate - d) div msPerDay"
    using assms by (simp add: msPerDay_def pos_imp_zdiv_nonneg_iff)
  ultimately show ?thesis
    by (simp add: daysCovered_def)
qed

lemma daysCovered_done: "\<not> d \<le> endDate \<Longrightarrow> daysCovered d endDate = 0"
proof -
  assume "\<not> d \<le> endDate"
  then have "endDate - d < 0" by simp
  then have "(endDate - d) div msPerDay < 0"
    by (simp add: msPerDay_def div_neg_pos_less0)
  then show ?thesis by (simp add: daysCovered_def)
qed

lemma daysCovered_whole_days:
  "daysCovered (a * msPerDay) (b * msPerDay) = nat (b - a + 1)"
proof -
  have "b * msPerDay - a * msPerDay = (b - a) * msPerDay" by (simp add: algebra_simps)
  then show ?thesis by (simp add: daysCovered_def msPerDay_def)
qed

text \<open>In a zone whose offset never changes the loop ends, with one record per round.\<close>

lemma leaveDaysLoop_fixed_zone:
  "daysCovered d endDate = n \<Longrightarrow>
   leaveDaysLoop (fixed_zone off) request endDate d acc =
     Some (acc @ map (\<lambda>k. leaveRecord request (d + int k * msPerDay)) [0..<n])"
proof (induction n arbitrary: d acc)
  case 0
  then have "\<not> d \<le> endDate"
    using daysCovered_step [of d endDate] by auto
  then show ?case
    by (subst leaveDaysLoop.simps) simp
next
  case (Suc n)
  then have le: "d \<le> endDate"
    using daysCovered_done [of d endDate] by auto
  then have n: "daysCovered (d + msPerDay) endDate = n"
    using Suc.prems daysCovered_step [of d endDate] by simp
  have shift: "map (\<lambda>k. leaveRecord request (d + msPerDay + int k * msPerDay)) [0..<n]
      = map (\<lambda>k. leaveRecord request (d + int k * msPerDay)) [Suc 0..<Suc n]"
    by (simp add: map_Suc_upt [symmetric] algebra_simps del: upt_Suc)
  have "leaveDaysLoop (fixed_zone off) request endDate d acc =
      leaveDaysLoop (fixed_zone off) request endDate (d + msPerDay) (acc @ [leaveRecord request d])"
    using le by (subst leaveDaysLoop.simps) (simp add: setDate_next_fixed_zone)
  also have "\<dots> = Some ((acc @ [leaveRecord request d]) @
      map (\<lambda>k. leaveRecord request (d + msPerDay + int k * msPerDay)) [0..<n])"
    by (rule Suc.IH [OF n])
  also have "\<dots> = Some (acc @ map (\<lambda>k. leaveRecord request (d + int k * msPerDay)) [0..<Suc n])"
    by (simp only: shift upt_conv_Cons [of 0 "Suc n"]) simp
  finally show ?case .
qed

lemma format_MMM_d_Some: "\<exists>s. format_MMM_d tz (Some t) = Some s"
  by (simp add: format_MMM_d_def split: prod.splits)

lemma new_Date_whole_day: "new_Date s = Some t \<Longrightarrow> \<exists>day. t = day * msPerDay"
  by (auto simp: new_Date_def split: if_splits option.splits)

lemma pad_zero_2: "pad_zero 2 0 = ''00''"
  by code_simp

lemma pad_zero_3: "pad_zero 3 0 = ''000''"
  by code_simp

lemma toISOString_midnight: "toISOString (day * msPerDay) = iso_date day @ ''T00:00:00.000Z''"
proof -
  have "day * msPerDay div msPerHour = day * 24" "day * msPerDay div msPerMinute = day * 1440"
    "day * msPerDay div 1000 = day * 86400" "day * msPerDay mod 1000 = 0"
    by (simp_all add: msPerDay_def msPerHour_def msPerMinute_def)
  then show ?thesis
    by (simp add: toISOString_def iso_time_def pad_zero_2 pad_zero_3 msPerDay_def)
qed

text \<open>
  In a zone whose offset never changes, with valid dates and no failing call, an
  approval by a signed-in admin appends to \<open>attendance\<close> exactly one record for each day
  from the first to the last day of the request, in order: the record of day \<open>k\<close> has
  \<open>check_in\<close> at \<open>00:00:00.000Z\<close> of that day, status \<open>leave\<close>, the requester's id and
  the reason in its notes.  There is none when the last day is before the first.
\<close>

lemma approve_fixed_zone_one_record_per_day:
  assumes "new_Date (start_date request) = Some (first_day * msPerDay)"
    and "new_Date (end_date request) = Some (last_day * msPerDay)"
    and "update_error faults = None" and "attendance_insert_error faults = None"
  shows "\<exists>out. handleApprove (fixed_zone off) faults (Some uid) now request db = Some out
    \<and> attendance (db_after out) = attendance db @
        map (\<lambda>k. \<lparr>att_user_id = user_id request,
                   check_in = iso_date (first_day + int k) @ ''T00:00:00.000Z'',
                   att_status = ''leave'',
                   att_notes = ''Approved leave: '' @
                     (case reason request of None \<Rightarrow> ''No reason provided''
                      | Some r \<Rightarrow> if r = [] then ''No reason provided'' else r)\<rparr>)
          [0..<nat (last_day - first_day + 1)]"
proof -
  let ?n = "nat (last_day - first_day + 1)"
  have rec: "leaveRecord request (first_day * msPerDay + int k * msPerDay) =
      \<lparr>att_user_id = user_id request,
       check_in = iso_date (first_day + int k) @ ''T00:00:00.000Z'',
       att_status = ''leave'',
       att_notes = ''Approved leave: '' @
         (case reason request of None \<Rightarrow> ''No reason provided''
          | Some r \<Rightarrow> if r = [] then ''No reason provided'' else r)\<rparr>" for k
  proof -
    have "first_day * msPerDay + int k * msPerDay = (first_day + int k) * msPerDay"
      by (simp add: algebra_simps)
    then show ?thesis
      by (simp add: leaveRecord_def toISOString_midnight)
  qed
  have loop: "leaveAttendanceRecords (fixed_zone off) request =
      Some (map (\<lambda>k. leaveRecord request (first_day * msPerDay + int k * msPerDay)) [0..<?n])"
    using leaveDaysLoop_fixed_zone [OF daysCovered_whole_days, of off request last_day first_day "[]"]
    by (simp add: leaveAttendanceRecords_def assms(1,2))
  obtain a b where fmt: "format_MMM_d (fixed_zone off) (Some (first_day * msPerDay)) = Some a"
      "format_MMM_d (fixed_zone off) (Some (last_day * msPerDay)) = Some b"
    using format_MMM_d_Some by blast
  show ?thesis
    by (simp add: handleApprove_def loop assms fmt rec Let_def)
qed

text \<open>
  The approval of the spec's example, 2024-01-10 to 2024-01-12, in a browser on UTC:
  three records, one per day.
\<close>

lemma approve_2024_01_10_to_12_utc:
  "handleApprove (fixed_zone 0) no_faults (Some ''admin'') 1704900000000
     (example_request ''2024-01-10'' ''2024-01-12'') (example_db ''2024-01-10'' ''2024-01-12'')
   = Some \<lparr>db_after =
       \<lparr>leave_requests =
          [\<lparr>id' = ''r1'', user_id = ''u7'', start_date = ''2024-01-10'', end_date = ''2024-01-12'',
            reason = Some ''Family event'', status = ''approved'', approved_by = Some ''admin'',
            approved_at = Some ''2024-01-10T15:20:00.000Z''\<rparr>],
        attendance =
          [\<lparr>att_user_id = ''u7'', check_in = ''2024-01-10T00:00:00.000Z'', att_status = ''leave'',
            att_notes = ''Approved leave: Family event''\<rparr>,
           \<lparr>att_user_id = ''u7'', check_in = ''2024-01-11T00:00:00.000Z'', att_status = ''leave'',
            att_notes = ''Approved leave: Family event''\<rparr>,
           \<lparr>att_user_id = ''u7'', check_in = ''2024-01-12T00:00:00.000Z'', att_status = ''leave'',
            att_notes = ''Approved leave: Family event''\<rparr>],
        notifications =
          [\<lparr>ntf_user_id = ''u7'', ntf_title = ''Leave Request Approved'',
            ntf_message = ''Your leave request from Jan 10 to Jan 12 has been approved.'',
            ntf_type = ''success'', related_type = ''leave'', related_id = ''r1''\<rparr>]\<rparr>,
      toast = Some \<lparr>toast_title = ''Leave approved'',
                     toast_description = ''Leave request for Dana has been approved.'',
                     toast_destructive = False\<rparr>\<rparr>"
  by code_simp

text \<open>
  Claim C1.  An approval is to create one record for every calendar day from
  \<open>start_date\<close> to \<open>end_date\<close>, both included.  The loop parses the two dates as
  midnight UTC but steps with \<open>setDate(getDate() + 1)\<close>, which adds a day in local time.
  In a zone that puts its clocks back inside the span, the stepped date is from then on
  one hour past midnight UTC, above \<open>endDate\<close> on the last day, and the loop leaves that
  day out.  In New York the request from 2024-11-02 to 2024-11-04 gets two records, for
  2024-11-02 and 2024-11-03, and none for 2024-11-04; the handler reports success.
\<close>

theorem C1_last_day_missing_when_clocks_go_back:
  "handleApprove new_york_2024 no_faults (Some ''admin'') 1730300000000
     (example_request ''2024-11-02'' ''2024-11-04'') (example_db ''2024-11-02'' ''2024-11-04'')
   = Some \<lparr>db_after =
       \<lparr>leave_requests =
          [\<lparr>id' = ''r1'', user_id = ''u7'', start_date = ''2024-11-02'', end_date = ''2024-11-04'',
            reason = Some ''Family event'', status = ''approved'', approved_by = Some ''admin'',
            approved_at = Some ''2024-10-30T14:53:20.000Z''\<rparr>],
        attendance =
          [\<lparr>att_user_id = ''u7'', check_in = ''2024-11-02T00:00:00.000Z'', att_status = ''leave'',
            att_notes = ''Approved leave: Family event''\<rparr>,
           \<lparr>att_user_id = ''u7'', check_in = ''2024-11-03T00:00:00.000Z'', att_status = ''leave'',
            att_notes = ''Approved leave: Family event''\<rparr>],
        notifications =
          [\<lparr>ntf_user_id = ''u7'', ntf_title = ''Leave Request Approved'',
            ntf_message = ''Your leave request from Nov 1 to Nov 3 has been approved.'',
            ntf_type = ''success'', related_type = ''leave'', related_id = ''r1''\<rparr>]\<rparr>,
      toast = Some \<lparr>toast_title = ''Leave approved'',
                     toast_description = ''Leave request for Dana has been approved.'',
                     toast_destructive = False\<rparr>\<rparr>"
  by code_simp

text \<open>
  The result of the insert into \<open>attendance\<close> is never read: the toast of an approval
  is the same whether that insert fails or not.
\<close>

lemma toast_ignores_attendance_insert:
  "map_option toast (handleApprove tz (faults\<lparr>attendance_insert_error := e\<rparr>) user now request db)
   = map_option toast (handleApprove tz faults user now request db)"
  by (simp add: handleApprove_def Let_def split: option.splits prod.splits)

text \<open>
  Claim C4.  A failure of the write that creates the per-day records is to be shown to
  the admin as an error.  The handler shows the same toast whether that insert fails or
  succeeds; on the example request, with the insert refused by the service, the request
  ends approved, no record exists and the toast reads \<open>Leave approved\<close>.
\<close>

theorem C4_failed_attendance_insert_shows_success:
  "map_option toast (handleApprove tz (faults\<lparr>attendance_insert_error := Some e\<rparr>) user now request db)
     = map_option toast (handleApprove tz (faults\<lparr>attendance_insert_error := None\<rparr>) user now request db)
   \<and> handleApprove (fixed_zone 0)
       (no_faults\<lparr>attendance_insert_error :=
          Some \<lparr>err_message = ''new row violates row-level security policy'',
                err_instanceof_Error = True\<rparr>\<rparr>)
       (Some ''admin'') 1704900000000
       (example_request ''2024-01-10'' ''2024-01-12'') (example_db ''2024-01-10'' ''2024-01-12'')
     = Some \<lparr>db_after =
         \<lparr>leave_requests =
            [\<lparr>id' = ''r1'', user_id = ''u7'', start_date = ''2024-01-10'', end_date = ''2024-01-12'',
              reason = Some ''Family event'', status = ''approved'', approved_by = Some ''admin'',
              approved_at = Some ''2024-01-10T15:20:00.000Z''\<rparr>],
          attendance = [],
          notifications =
            [\<lparr>ntf_user_id = ''u7'', ntf_title = ''Leave Request Approved'',
              ntf_message = ''Your leave request from Jan 10 to Jan 12 has been approved.'',
              ntf_type = ''success'', related_type = ''leave'', related_id = ''r1''\<rparr>]\<rparr>,
        toast = Some \<lparr>toast_title = ''Leave approved'',
                       toast_description = ''Leave request for Dana has been approved.'',
                       toast_destructive = False\<rparr>\<rparr>"
proof -
  have a: "map_option toast (handleApprove tz (faults\<lparr>attendance_insert_error := Some e\<rparr>) user now request db)
     = map_option toast (handleApprove tz (faults\<lparr>attendance_insert_error := None\<rparr>) user now request db)"
    by (simp add: toast_ignores_attendance_insert)
  have b: "handleApprove (fixed_zone 0)
       (no_faults\<lparr>attendance_insert_error :=
          Some \<lparr>err_message = ''new row violates row-level security policy'',
                err_instanceof_Error = True\<rparr>\<rparr>)
       (Some ''admin'') 1704900000000
       (example_request ''2024-01-10'' ''2024-01-12'') (example_db ''2024-01-10'' ''2024-01-12'')
     = Some \<lparr>db_after =
         \<lparr>leave_requests =
            [\<lparr>id' = ''r1'', user_id = ''u7'', start_date = ''2024-01-10'', end_date = ''2024-01-12'',
              reason = Some ''Family event'', status = ''approved'', approved_by = Some ''admin'',
              approved_at = Some ''2024-01-10T15:20:00.000Z''\<rparr>],
          attendance = [],
          notifications =
            [\<lparr>ntf_user_id = ''u7'', ntf_title = ''Leave Request Approved'',
              ntf_message = ''Your leave request from Jan 10 to Jan 12 has been approved.'',
              ntf_type = ''success'', related_type = ''leave'', related_id = ''r1''\<rparr>]\<rparr>,
        toast = Some \<lparr>toast_title = ''Leave approved'',
                       toast_description = ''Leave request for Dana has been approved.'',
                       toast_destructive = False\<rparr>\<rparr>"
    by code_simp
  from a b show ?thesis by (rule conjI)
qed

text \<open>
  Claim C7.  Declining never changes \<open>attendance\<close>, whatever the inputs and whichever
  calls fail.  With an admin signed in and the update accepted, the rows with the
  request's id get status \<open>declined\<close>, the admin as \<open>approved_by\<close> and the current time
  as \<open>approved_at\<close>, and no other row changes; when in addition the dates are valid and
  the insert is accepted, exactly one notification is appended, addressed to the
  requester and linked to the request.
\<close>

theorem C7_decline_leaves_attendance_unchanged:
  "attendance (db_after (handleDecline tz faults user now request db)) = attendance db
   \<and> (user = Some uid \<and> update_error faults = None \<longrightarrow>
        leave_requests (db_after (handleDecline tz faults user now request db)) =
          map (\<lambda>r. if id' r = id' request
                    then r\<lparr>status := ''declined'', approved_by := Some uid,
                           approved_at := Some (toISOString now)\<rparr>
                    else r) (leave_requests db))
   \<and> (user = Some uid \<and> update_error faults = None \<and> notification_insert_error faults = None
        \<and> new_Date (start_date request) \<noteq> None \<and> new_Date (end_date request) \<noteq> None \<longrightarrow>
        (\<exists>n. notifications (db_after (handleDecline tz faults user now request db)) = notifications db @ [n]
           \<and> ntf_user_id n = user_id request \<and> ntf_title n = ''Leave Request Declined''
           \<and> related_id n = id' request))"
proof -
  have a: "attendance (db_after (handleDecline tz faults user now request db)) = attendance db"
    by (simp add: handleDecline_def Let_def split: option.splits prod.splits)
  have b: "user = Some uid \<and> update_error faults = None \<longrightarrow>
        leave_requests (db_after (handleDecline tz faults user now request db)) =
          map (\<lambda>r. if id' r = id' request
                    then r\<lparr>status := ''declined'', approved_by := Some uid,
                           approved_at := Some (toISOString now)\<rparr>
                    else r) (leave_requests db)"
    by (simp add: handleDecline_def update_leave_request_def Let_def split: option.splits prod.splits)
  have c: "\<exists>n. notifications (db_after (handleDecline tz faults user now request db)) = notifications db @ [n]
           \<and> ntf_user_id n = user_id request \<and> ntf_title n = ''Leave Request Declined''
           \<and> related_id n = id' request"
    if h: "user = Some uid \<and> update_error faults = None \<and> notification_insert_error faults = None
        \<and> new_Date (start_date request) \<noteq> None \<and> new_Date (end_date request) \<noteq> None"
  proof -
    from h obtain s e where d: "new_Date (start_date request) = Some s" "new_Date (end_date request) = Some e"
      by auto
    obtain x y where f: "format_MMM_d tz (Some s) = Some x" "format_MMM_d tz (Some e) = Some y"
      using format_MMM_d_Some by blast
    show ?thesis
      using h by (simp add: handleDecline_def d f declinedNotification_def Let_def)
  qed
  from a b c show ?thesis by blast
qed

theorem C7_witness:
  "attendance (db_after (handleDecline (fixed_zone 0) no_faults (Some ''admin'') 1704900000000
     (example_request ''2024-01-10'' ''2024-01-12'') (example_db ''2024-01-10'' ''2024-01-12''))) = []
   \<and> map status (leave_requests (db_after (handleDecline (fixed_zone 0) no_faults (Some ''admin'') 1704900000000
     (example_request ''2024-01-10'' ''2024-01-12'') (example_db ''2024-01-10'' ''2024-01-12'')))) = [''declined'']
   \<and> length (notifications (db_after (handleDecline (fixed_zone 0) no_faults (Some ''admin'') 1704900000000
     (example_request ''2024-01-10'' ''2024-01-12'') (example_db ''2024-01-10'' ''2024-01-12'')))) = 1"
proof -
  let ?out = "handleDecline (fixed_zone 0) no_faults (Some ''admin'') 1704900000000
     (example_request ''2024-01-10'' ''2024-01-12'') (example_db ''2024-01-10'' ''2024-01-12'')"
  note T = C7_decline_leaves_attendance_unchanged [of "fixed_zone 0" no_faults "Some ''admin''" 1704900000000
      "example_request ''2024-01-10'' ''2024-01-12''" "example_db ''2024-01-10'' ''2024-01-12''" "''admin''"]
  have h1: "Some ''admin'' = Some ''admin'' \<and> update_error no_faults = None"
    by (simp add: no_faults_def)
  have d1: "new_Date (start_date (example_request ''2024-01-10'' ''2024-01-12'')) \<noteq> None"
    by code_simp
  have d2: "new_Date (end_date (example_request ''2024-01-10'' ''2024-01-12'')) \<noteq> None"
    by code_simp
  have h2: "Some ''admin'' = Some ''admin'' \<and> update_error no_faults = None
      \<and> notification_insert_error no_faults = None
      \<and> new_Date (start_date (example_request ''2024-01-10'' ''2024-01-12'')) \<noteq> None
      \<and> new_Date (end_date (example_request ''2024-01-10'' ''2024-01-12'')) \<noteq> None"
    using d1 d2 by (simp add: no_faults_def)
  have a: "attendance (db_after ?out) = []"
    using T [THEN conjunct1] by (simp add: example_db_def)
  have b: "map status (leave_requests (db_after ?out)) = [''declined'']"
    using T [THEN conjunct2, THEN conjunct1, THEN mp, OF h1]
    by (simp add: example_db_def example_row_def example_request_def LeaveRow.extend_def)
  have c: "length (notifications (db_after ?out)) = 1"
    using T [THEN conjunct2, THEN conjunct2, THEN mp, OF h2]
    by (auto simp: example_db_def)
  from a b c show ?thesis by (intro conjI)
qed

lemma approve_sets_status:
  assumes "update_error faults = None"
    and "handleApprove tz faults (Some uid) now request db = Some out"
  shows "leave_requests (db_after out) =
     map (\<lambda>r. if id' r = id' request
               then r\<lparr>status := ''approved'', approved_by := Some uid,
                      approved_at := Some (toISOString now)\<rparr>
               else r) (leave_requests db)"
  using assms
  by (auto simp: handleApprove_def update_leave_request_def Let_def
      split: option.splits prod.splits if_splits)

lemma loop_same_records_imp:
  assumes run: "leaveDaysLoop tz request endDate d acc = Some y"
    and same: "\<forall>x. leaveRecord request' x = leaveRecord request x"
  shows "leaveDaysLoop tz request' endDate d acc = Some y"
proof -
  have "(\<forall>x. leaveRecord request' x = leaveRecord request x) \<longrightarrow>
      leaveDaysLoop tz request' endDate d acc = Some y"
  proof (rule leaveDaysLoop.raw_induct
      [where P = "\<lambda>z r e a b c. (\<forall>x. leaveRecord request' x = leaveRecord r x) \<longrightarrow>
                    leaveDaysLoop z request' e a b = Some c", OF _ run])
    fix loop z r e a b c
    assume ih: "\<And>z r e a b c. loop z r e a b = Some c \<Longrightarrow>
        (\<forall>x. leaveRecord request' x = leaveRecord r x) \<longrightarrow> leaveDaysLoop z request' e a b = Some c"
      and step: "(if a \<le> e then loop z r e (setDate_next z a) (b @ [leaveRecord r a]) else Some b) = Some c"
    show "(\<forall>x. leaveRecord request' x = leaveRecord r x) \<longrightarrow> leaveDaysLoop z request' e a b = Some c"
    proof
      assume s: "\<forall>x. leaveRecord request' x = leaveRecord r x"
      show "leaveDaysLoop z request' e a b = Some c"
      proof (cases "a \<le> e")
        case True
        with step have "loop z r e (setDate_next z a) (b @ [leaveRecord r a]) = Some c" by simp
        from ih [OF this] s
        have "leaveDaysLoop z request' e (setDate_next z a) (b @ [leaveRecord r a]) = Some c" by blast
        with True s show ?thesis by (subst leaveDaysLoop.simps) simp
      next
        case False
        with step show ?thesis by (subst leaveDaysLoop.simps) simp
      qed
    qed
  qed
  with same show ?thesis by blast
qed

lemma loop_same_records:
  assumes "\<forall>x. leaveRecord request' x = leaveRecord request x"
  shows "leaveDaysLoop tz request' endDate d acc = leaveDaysLoop tz request endDate d acc"
proof (cases "leaveDaysLoop tz request endDate d acc")
  case (Some y)
  from loop_same_records_imp [OF this assms] Some show ?thesis by simp
next
  case None
  show ?thesis
  proof (cases "leaveDaysLoop tz request' endDate d acc")
    case inner: None
    with None show ?thesis by simp
  next
    case (Some y)
    from assms have "\<forall>x. leaveRecord request x = leaveRecord request' x" by simp
    from loop_same_records_imp [OF Some this] None show ?thesis by simp
  qed
qed

lemma records_ignore_status:
  "leaveAttendanceRecords tz (request\<lparr>status := s\<rparr>) = leaveAttendanceRecords tz request"
proof -
  have "\<forall>x. leaveRecord (request\<lparr>status := s\<rparr>) x = leaveRecord request x"
    by (simp add: leaveRecord_def)
  from loop_same_records [OF this]
  have l: "\<And>e d acc. leaveDaysLoop tz (request\<lparr>status := s\<rparr>) e d acc = leaveDaysLoop tz request e d acc" .
  show ?thesis
    unfolding leaveAttendanceRecords_def l by simp
qed

lemma notification_ignores_status:
  "approvedNotification (request\<lparr>status := s\<rparr>) = approvedNotification request"
  by (intro ext) (simp add: approvedNotification_def)

lemma approve_ignores_status:
  "handleApprove tz faults user now (request\<lparr>status := s\<rparr>) db
     = handleApprove tz faults user now request db"
proof -
  have sel: "id' (request\<lparr>status := s\<rparr>) = id' request"
    "start_date (request\<lparr>status := s\<rparr>) = start_date request"
    "end_date (request\<lparr>status := s\<rparr>) = end_date request"
    "user_full_name (request\<lparr>status := s\<rparr>) = user_full_name request"
    by simp_all
  show ?thesis
    unfolding handleApprove_def records_ignore_status notification_ignores_status sel ..
qed

lemma decline_ignores_status:
  "handleDecline tz faults user now (request\<lparr>status := s\<rparr>) db
     = handleDecline tz faults user now request db"
proof -
  have sel: "id' (request\<lparr>status := s\<rparr>) = id' request"
    "start_date (request\<lparr>status := s\<rparr>) = start_date request"
    "end_date (request\<lparr>status := s\<rparr>) = end_date request"
    "user_full_name (request\<lparr>status := s\<rparr>) = user_full_name request"
    by simp_all
  have n: "declinedNotification (request\<lparr>status := s\<rparr>) = declinedNotification request"
    by (intro ext) (simp add: declinedNotification_def)
  show ?thesis
    unfolding handleDecline_def n sel ..
qed

text \<open>
  The page sorts the loaded requests by status, and only a card of the pending tab has
  the approve and decline buttons.
\<close>

lemma buttons_only_on_pending_cards:
  "rc \<in> set (renderedCards requests) \<Longrightarrow> showActions rc \<Longrightarrow>
     status (card_request rc) = ''pending''"
  by (auto simp: renderedCards_def renderRequestCard_def pendingRequests_def)

lemma decline_sets_status:
  assumes "update_error faults = None"
  shows "leave_requests (db_after (handleDecline tz faults (Some uid) now request db)) =
     map (\<lambda>r. if id' r = id' request
               then r\<lparr>status := ''declined'', approved_by := Some uid,
                      approved_at := Some (toISOString now)\<rparr>
               else r) (leave_requests db)"
  using assms
  by (simp add: handleDecline_def update_leave_request_def Let_def split: option.splits prod.splits)

text \<open>
  Claim C3.  Approving a request that is already approved is to be a no-op or to be
  rejected, so that one request cannot create its records twice, and \<open>approved\<close> and
  \<open>declined\<close> are to be terminal.  The page keeps to this only through what it shows:
  the buttons are on the cards of the requests it loaded as pending, and it loads the
  requests again after a success.  The handlers themselves never read the status,
  neither of the request they are given nor of the stored row: \<open>handleApprove\<close> and
  \<open>handleDecline\<close> give the same result whatever the status of their request is.  So
  a card that still shows the request as pending (the second load has not yet arrived,
  or the page is another admin's) approves it again: on the example request of one
  day, the second approval stamps the approved row anew and leaves two records for the
  day and two notifications, with the success toast; and declining from such a card
  turns the approved row into a declined one and leaves the record of the day in place.
\<close>

theorem C3_stale_card_approves_again:
  "handleApprove tz faults user now (request\<lparr>status := s\<rparr>) db
     = handleApprove tz faults user now request db
   \<and> handleDecline tz faults user now (request\<lparr>status := s\<rparr>) db
     = handleDecline tz faults user now request db
   \<and> renderRequestCard (example_request ''2024-01-10'' ''2024-01-10'') True
     \<in> set (renderedCards [example_request ''2024-01-10'' ''2024-01-10''])
   \<and> after_outcome
     (handleApprove (fixed_zone 0) no_faults (Some ''admin'') 1704900000000
        (example_request ''2024-01-10'' ''2024-01-10'') (example_db ''2024-01-10'' ''2024-01-10''))
     (handleApprove (fixed_zone 0) no_faults (Some ''admin'') 1704903600000
        (example_request ''2024-01-10'' ''2024-01-10''))
   = Some \<lparr>db_after =
       \<lparr>leave_requests =
          [\<lparr>id' = ''r1'', user_id = ''u7'', start_date = ''2024-01-10'', end_date = ''2024-01-10'',
            reason = Some ''Family event'', status = ''approved'', approved_by = Some ''admin'',
            approved_at = Some ''2024-01-10T16:20:00.000Z''\<rparr>],
        attendance =
          [\<lparr>att_user_id = ''u7'', check_in = ''2024-01-10T00:00:00.000Z'', att_status = ''leave'',
            att_notes = ''Approved leave: Family event''\<rparr>,
           \<lparr>att_user_id = ''u7'', check_in = ''2024-01-10T00:00:00.000Z'', att_status = ''leave'',
            att_notes = ''Approved leave: Family event''\<rparr>],
        notifications =
          [\<lparr>ntf_user_id = ''u7'', ntf_title = ''Leave Request Approved'',
            ntf_message = ''Your leave request from Jan 10 to Jan 10 has been approved.'',
            ntf_type = ''success'', related_type = ''leave'', related_id = ''r1''\<rparr>,
           \<lparr>ntf_user_id = ''u7'', ntf_title = ''Leave Request Approved'',
            ntf_message = ''Your leave request from Jan 10 to Jan 10 has been approved.'',
            ntf_type = ''success'', related_type = ''leave'', related_id = ''r1''\<rparr>]\<rparr>,
      toast = Some \<lparr>toast_title = ''Leave approved'',
                     toast_description = ''Leave request for Dana has been approved.'',
                     toast_destructive = False\<rparr>\<rparr>
   \<and> map_option
     (\<lambda>out. (map status (leave_requests (db_after out)), length (attendance (db_after out))))
     (after_outcome
        (handleApprove (fixed_zone 0) no_faults (Some ''admin'') 1704900000000
           (example_request ''2024-01-10'' ''2024-01-10'') (example_db ''2024-01-10'' ''2024-01-10''))
        (\<lambda>db. Some (handleDecline (fixed_zone 0) no_faults (Some ''admin'') 1704903600000
           (example_request ''2024-01-10'' ''2024-01-10'') db)))
   = Some ([''declined''], 1)"
  apply (intro conjI)
  subgoal by (rule approve_ignores_status)
  subgoal by (rule decline_ignores_status)
  subgoal
    by (simp add: renderedCards_def pendingRequests_def example_request_def example_row_def
        LeaveRow.extend_def)
  subgoal by code_simp
  subgoal by code_simp
  done

section \<open>Properties of the aggregator\<close>

text \<open>
  Claim C8.  For an employee count \<open>E\<close> and the rows found for the day, the number of
  absent employees is \<open>max 0 (E - n)\<close> with \<open>n\<close> the number of rows; it is never
  negative, whatever the two queries returned; with \<open>E = 10\<close> and 12 rows it is 0.
\<close>

theorem C8_absent_never_negative:
  "absentToday (Some E) (Some recs) = max 0 (E - int (length recs))
   \<and> 0 \<le> absentToday employeeCount todayAttendance
   \<and> (length recs = 12 \<longrightarrow> absentToday (Some 10) (Some recs) = 0)"
  by (simp add: absentToday_def totalAttendanceToday_def or_zero_def length_opt_def)

theorem C8_witness:
  "absentToday (Some 10) (Some (replicate 12 \<lparr>row_status = ''present''\<rparr>)) = 0
   \<and> absentToday (Some 10) (Some (replicate 7 \<lparr>row_status = ''leave''\<rparr>)) = 3"
proof -
  have "length (replicate 12 \<lparr>row_status = ''present''\<rparr>) = 12" by simp
  note z = C8_absent_never_negative [of _ "replicate 12 \<lparr>row_status = ''present''\<rparr>",
      THEN conjunct2, THEN conjunct2, THEN mp, OF this]
  have "absentToday (Some 10) (Some (replicate 7 \<lparr>row_status = ''leave''\<rparr>)) = 3"
    using C8_absent_never_negative [of 10 "replicate 7 \<lparr>row_status = ''leave''\<rparr>", THEN conjunct1]
    by simp
  with z show ?thesis by (intro conjI)
qed

subsection \<open>The binary64 operations of the weekly rate\<close>

lemma bit_length_bounds_int:
  "0 < n \<Longrightarrow> 1 \<le> bit_length n \<and> 2 ^ nat (bit_length n - 1) \<le> n \<and> n < 2 ^ nat (bit_length n)"
proof (induction n rule: bit_length.induct)
  case (1 n)
  show ?case
  proof (cases "n = 1")
    case True
    have "bit_length 1 = 1" by (simp add: bit_length.simps)
    with True show ?thesis by simp
  next
    case False
    with "1.prems" have pos: "0 < n div 2" by simp
    have step: "bit_length n = 1 + bit_length (n div 2)"
      using "1.prems" by (subst bit_length.simps) simp
    from "1.IH" [OF _ pos] "1.prems"
    have ih: "1 \<le> bit_length (n div 2)" "2 ^ nat (bit_length (n div 2) - 1) \<le> n div 2"
      "n div 2 < 2 ^ nat (bit_length (n div 2))"
      by auto
    have e1: "nat (bit_length n - 1) = Suc (nat (bit_length (n div 2) - 1))"
      using ih(1) step by simp
    have e2: "nat (bit_length n) = Suc (nat (bit_length (n div 2)))"
      using ih(1) step by simp
    have "2 * 2 ^ nat (bit_length (n div 2) - 1) \<le> n"
      using ih(2) by linarith
    moreover have "n < 2 * 2 ^ nat (bit_length (n div 2))"
      using ih(3) by linarith
    ultimately show ?thesis
      using ih(1) step unfolding e1 e2 by simp
  qed
qed

lemma powi_nat: "0 \<le> k \<Longrightarrow> (2::real) powi k = 2 ^ nat k"
  by (simp add: power_int_def)

lemma bit_length_bounds:
  assumes "0 < n"
  shows "(2::real) powi (bit_length n - 1) \<le> of_int n" and "of_int n < (2::real) powi bit_length n"
proof -
  from bit_length_bounds_int [OF assms]
  have b: "1 \<le> bit_length n" "2 ^ nat (bit_length n - 1) \<le> n" "n < 2 ^ nat (bit_length n)"
    by auto
  have "(2::real) powi (bit_length n - 1) = of_int (2 ^ nat (bit_length n - 1))"
    using b(1) by (simp add: powi_nat)
  also have "\<dots> \<le> of_int n" using b(2) by (simp only: of_int_le_iff)
  finally show "(2::real) powi (bit_length n - 1) \<le> of_int n" .
  have "of_int n < (of_int (2 ^ nat (bit_length n)) :: real)"
    using b(3) by (simp only: of_int_less_iff)
  also have "\<dots> = (2::real) powi bit_length n"
    using b(1) by (simp add: powi_nat)
  finally show "of_int n < (2::real) powi bit_length n" .
qed

lemma scale_up_pos: "0 < x \<Longrightarrow> 0 < scale_up x k"
  by (simp add: scale_up_def)

lemma scaled_ratio:
  assumes "0 < d"
  shows "(of_int (scale_up n k) :: real) / of_int (scale_up d (- k)) = of_int n / of_int d * 2 powi k"
proof (cases "0 \<le> k")
  case True
  then show ?thesis
    by (cases "k = 0") (simp_all add: scale_up_def powi_nat)
next
  case False
  then have p: "(2::real) powi k = 1 / 2 ^ nat (- k)"
    using power_int_minus_divide [of "2::real" "- k"] by (simp add: powi_nat)
  have "(of_int (scale_up n k) :: real) / of_int (scale_up d (- k))
      = of_int n / (of_int d * 2 ^ nat (- k))"
    using False by (simp add: scale_up_def)
  also have "\<dots> = of_int n / of_int d * (1 / 2 ^ nat (- k))"
    by simp
  also have "\<dots> = of_int n / of_int d * 2 powi k"
    by (simp only: p)
  finally show ?thesis .
qed

lemma round_half_even_error:
  assumes "0 < d"
  shows "\<bar>of_int (round_half_even n d) - (of_int n :: real) / of_int d\<bar> \<le> 1 / 2"
proof -
  define q r where "q = n div d" and "r = n mod d"
  have n: "n = q * d + r" by (simp add: q_def r_def)
  have r: "0 \<le> r" "r < d" using assms by (simp_all add: r_def)
  have frac: "(of_int n :: real) / of_int d = of_int q + of_int r / of_int d"
    using assms by (simp add: n field_simps)
  have rd: "0 \<le> (of_int r :: real) / of_int d" "(of_int r :: real) / of_int d < 1"
    using r assms by simp_all
  consider "2 * r < d" | "d < 2 * r" | "2 * r = d" by linarith
  then show ?thesis
  proof cases
    case 1
    then have "round_half_even n d = q"
      by (simp add: round_half_even_def q_def r_def Let_def)
    moreover have "(of_int r :: real) / of_int d \<le> 1 / 2"
    proof -
      have "2 * r \<le> d" using 1 by simp
      then have "(of_int (2 * r) :: real) \<le> of_int d" by (simp only: of_int_le_iff)
      then show ?thesis using assms by (simp add: field_simps)
    qed
    ultimately show ?thesis using rd by (simp add: frac)
  next
    case 2
    then have "round_half_even n d = q + 1"
      by (simp add: round_half_even_def q_def r_def Let_def)
    moreover have "1 / 2 \<le> (of_int r :: real) / of_int d"
    proof -
      have "d \<le> 2 * r" using 2 by simp
      then have "(of_int d :: real) \<le> of_int (2 * r)" by (simp only: of_int_le_iff)
      then show ?thesis using assms by (simp add: field_simps)
    qed
    ultimately show ?thesis using rd by (simp add: frac)
  next
    case 3
    then have alt: "round_half_even n d = q \<or> round_half_even n d = q + 1"
      by (simp add: round_half_even_def q_def r_def Let_def)
    have half: "(of_int r :: real) / of_int d = 1 / 2"
    proof -
      have "(of_int d :: real) = 2 * of_int r" using 3 by simp
      moreover have "(of_int r :: real) \<noteq> 0" using 3 assms by auto
      ultimately show ?thesis by simp
    qed
    have fr: "(of_int n :: real) / of_int d = of_int q + 1 / 2"
      by (simp only: frac half)
    show ?thesis unfolding fr using alt by auto
  qed
qed

lemma nearest_double_props:
  assumes "0 < n" "0 < d"
  shows "\<exists>m k. nearest_double n d = Double m (- k)
      \<and> \<bar>of_int m - of_int n / of_int d * 2 powi k\<bar> \<le> (1 / 2 :: real)
      \<and> 2 ^ 52 \<le> (of_int n / of_int d * 2 powi k :: real)
      \<and> (of_int n / of_int d * 2 powi k :: real) < 2 ^ 53"
proof -
  define q :: real where "q = of_int n / of_int d"
  define k0 where "k0 = 53 + bit_length d - bit_length n"
  define k where "k = (if scale_up n k0 < 2 ^ 53 * scale_up d (- k0) then k0 else k0 - 1)"
  define m where "m = round_half_even (scale_up n k) (scale_up d (- k))"
  have nd: "nearest_double n d = Double m (- k)"
    by (simp add: nearest_double_def Let_def m_def k_def k0_def)
  have rn: "0 < (of_int n :: real)" and rd: "0 < (of_int d :: real)"
    using assms by simp_all
  have qpos: "0 < q" using rn rd by (simp add: q_def)
  note bn = bit_length_bounds [OF assms(1)]
  note bd = bit_length_bounds [OF assms(2)]
  have pd: "0 < (2::real) powi (bit_length d - 1)" "0 < (2::real) powi bit_length d"
    by (simp_all add: zero_less_power_int)
  have lower: "(2::real) powi (bit_length n - 1 - bit_length d) < q"
  proof -
    have "(2::real) powi (bit_length n - 1 - bit_length d)
        = 2 powi (bit_length n - 1) / 2 powi bit_length d"
      by (simp add: power_int_diff)
    also have "\<dots> \<le> of_int n / 2 powi bit_length d"
      using bn(1) pd(2) by (simp add: divide_right_mono)
    also have "\<dots> < of_int n / of_int d"
      using bd(2) rn rd by (simp add: frac_less2)
    finally show ?thesis by (simp add: q_def)
  qed
  have upper: "q < (2::real) powi (bit_length n - (bit_length d - 1))"
  proof -
    have "q \<le> of_int n / 2 powi (bit_length d - 1)"
      unfolding q_def using bd(1) rn pd(1) by (simp add: frac_le)
    also have "\<dots> < 2 powi bit_length n / 2 powi (bit_length d - 1)"
      using bn(2) pd(1) by (simp add: divide_strict_right_mono)
    also have "\<dots> = 2 powi (bit_length n - (bit_length d - 1))"
      by (simp add: power_int_diff)
    finally show ?thesis .
  qed
  have p0: "0 < (2::real) powi k0" by (simp add: zero_less_power_int)
  have x0_lower: "2 ^ 52 < q * 2 powi k0"
  proof -
    have "(2::real) ^ 52 = 2 powi 52" by simp
    also have "\<dots> = 2 powi (bit_length n - 1 - bit_length d) * 2 powi k0"
      by (simp add: power_int_add [symmetric] k0_def)
    also have "\<dots> < q * 2 powi k0"
      using lower p0 by (simp add: mult_strict_right_mono)
    finally show ?thesis .
  qed
  have x0_upper: "q * 2 powi k0 < 2 ^ 54"
  proof -
    have "q * 2 powi k0 < 2 powi (bit_length n - (bit_length d - 1)) * 2 powi k0"
      using upper p0 by (simp add: mult_strict_right_mono)
    also have "\<dots> = 2 powi 54"
      by (simp add: power_int_add [symmetric] k0_def)
    also have "\<dots> = (2::real) ^ 54" by simp
    finally show ?thesis .
  qed
  have test: "scale_up n k0 < 2 ^ 53 * scale_up d (- k0) \<longleftrightarrow> q * 2 powi k0 < 2 ^ 53"
  proof -
    have sd: "0 < (of_int (scale_up d (- k0)) :: real)"
      using scale_up_pos [OF assms(2)] by simp
    have "q * 2 powi k0 = of_int (scale_up n k0) / of_int (scale_up d (- k0))"
      by (simp add: q_def scaled_ratio [OF assms(2)])
    then have "q * 2 powi k0 < 2 ^ 53 \<longleftrightarrow>
        (of_int (scale_up n k0) :: real) < 2 ^ 53 * of_int (scale_up d (- k0))"
      using sd by (simp add: pos_divide_less_eq)
    also have "\<dots> \<longleftrightarrow> (of_int (scale_up n k0) :: real) < of_int (2 ^ 53 * scale_up d (- k0))"
      by simp
    also have "\<dots> \<longleftrightarrow> scale_up n k0 < 2 ^ 53 * scale_up d (- k0)"
      by (simp only: of_int_less_iff)
    finally show ?thesis by simp
  qed
  have range: "2 ^ 52 \<le> q * 2 powi k \<and> q * 2 powi k < 2 ^ 53"
  proof (cases "scale_up n k0 < 2 ^ 53 * scale_up d (- k0)")
    case True
    then have "k = k0" by (simp add: k_def)
    with True test x0_lower show ?thesis by simp
  next
    case False
    then have kk: "k = k0 - 1" by (simp add: k_def)
    have "(2::real) powi k0 = 2 powi (k + 1)" by (simp add: kk)
    also have "\<dots> = 2 powi k * 2" by (simp add: power_int_add)
    finally have "q * 2 powi k0 = 2 * (q * 2 powi k)" by simp
    with False test x0_upper show ?thesis by simp
  qed
  have err: "\<bar>of_int m - q * 2 powi k\<bar> \<le> 1 / 2"
  proof -
    have "0 < scale_up d (- k)" using scale_up_pos [OF assms(2)] .
    from round_half_even_error [OF this, of "scale_up n k"]
    show ?thesis
      by (simp add: m_def q_def scaled_ratio [OF assms(2)])
  qed
  from nd err range show ?thesis
    unfolding q_def by blast
qed

lemma nearest_double_error:
  assumes "0 < n" "0 < d"
  shows "\<exists>m e. nearest_double n d = Double m e \<and> 0 < m
      \<and> \<bar>of_int m * 2 powi e - of_int n / of_int d\<bar> \<le> (of_int n / of_int d) / (2 ^ 53 :: real)"
proof -
  define q :: real where "q = of_int n / of_int d"
  from nearest_double_props [OF assms] obtain m k where
    nd: "nearest_double n d = Double m (- k)"
    and err: "\<bar>of_int m - q * 2 powi k\<bar> \<le> 1 / 2"
    and lo: "2 ^ 52 \<le> q * 2 powi k" and hi: "q * 2 powi k < 2 ^ 53"
    unfolding q_def by blast
  define u :: real where "u = 2 powi (- k)"
  have u: "0 < u" by (simp add: u_def zero_less_power_int)
  have inv: "2 powi k * u = 1"
    by (simp add: u_def power_int_add [symmetric])
  have q: "q = (q * 2 powi k) * u"
    using inv by (simp add: mult.assoc)
  have mpos: "0 < m"
  proof -
    have "(1::real) \<le> 2 ^ 52" by simp
    with err lo have "(0::real) < of_int m" by linarith
    then show ?thesis by simp
  qed
  have "of_int m * u - q = (of_int m - q * 2 powi k) * u"
    using inv by (simp add: algebra_simps)
  then have "\<bar>of_int m * u - q\<bar> = \<bar>of_int m - q * 2 powi k\<bar> * u"
    using u by (simp add: abs_mult)
  also have "\<dots> \<le> 1 / 2 * u"
    using err u by (simp add: mult_right_mono)
  also have "\<dots> \<le> q / 2 ^ 53"
  proof -
    have "2 ^ 52 * u \<le> (q * 2 powi k) * u"
      using lo u by (simp add: mult_right_mono)
    then have "2 ^ 52 * u \<le> q" using q by simp
    then show ?thesis by simp
  qed
  finally have "\<bar>of_int m * 2 powi (- k) - q\<bar> \<le> q / 2 ^ 53"
    by (simp add: u_def)
  with nd mpos show ?thesis unfolding q_def by blast
qed

text \<open>Each of the two operations is off by at most the fraction \<open>2^-53\<close> of the exact result.\<close>

lemma nearest_double_value_error:
  assumes "0 < n" "0 < d"
  shows "\<bar>double_value (nearest_double n d) - of_int n / of_int d\<bar>
      \<le> (of_int n / of_int d) / (2 ^ 53 :: real)"
  using nearest_double_error [OF assms] by auto

lemma Math_round_floor:
  "Math_round (Double m e) = \<lfloor>(of_int m * 2 powi e :: real) + 1 / 2\<rfloor>"
proof (cases "0 \<le> e")
  case True
  have "(of_int m * 2 powi e :: real) + 1 / 2 = of_int (m * 2 ^ nat e) + 1 / 2"
    using True by (simp add: powi_nat)
  also have "\<lfloor>\<dots>\<rfloor> = m * 2 ^ nat e"
    by (simp only: floor_add_int [symmetric] add.commute [of "of_int _"]) simp
  finally show ?thesis using True by (simp add: Math_round.simps)
next
  case False
  define j where "j = nat (- e)"
  have p: "(2::real) powi e = 1 / 2 ^ j"
    using False power_int_minus_divide [of "2::real" "- e"] by (simp add: powi_nat j_def)
  have "(of_int m * 2 powi e :: real) + 1 / 2 = of_int (2 * m + 2 ^ j) / of_int (2 ^ (j + 1))"
    by (simp add: p field_simps)
  also have "\<lfloor>\<dots>\<rfloor> = (2 * m + 2 ^ j) div 2 ^ (j + 1)"
    by (rule floor_divide_of_int_eq)
  finally show ?thesis using False by (simp add: j_def Math_round.simps)
qed

lemma rate_nearest:
  assumes p: "0 < p" "600 * p < 2 ^ 53" and T: "0 < T"
  shows "\<bar>2 * (Math_round (js_times_100 (js_divide p T)) * T - 100 * p)\<bar> \<le> T"
proof -
  define P Tr eps :: real where "P = of_int p" and "Tr = of_int T" and "eps = 1 / 2 ^ 53"
  have Ppos: "0 < P" and Tpos: "0 < Tr" using p T by (simp_all add: P_def Tr_def)
  have eps: "0 < eps" "eps \<le> 1" by (simp_all add: eps_def)
  from nearest_double_error [OF p(1) T] obtain m1 e1 where
    d1: "nearest_double p T = Double m1 e1" and m1: "0 < m1"
    and err1: "\<bar>of_int m1 * 2 powi e1 - P / Tr\<bar> \<le> P / Tr * eps"
    by (auto simp: P_def Tr_def eps_def)
  define v1 :: real where "v1 = of_int m1 * 2 powi e1"
  have n2: "0 < scale_up (100 * m1) e1" using m1 by (simp add: scale_up_pos)
  have d2: "0 < scale_up 1 (- e1)" by (simp add: scale_up_pos)
  have ratio2: "(of_int (scale_up (100 * m1) e1) :: real) / of_int (scale_up 1 (- e1)) = 100 * v1"
    using scaled_ratio [of 1 "100 * m1" e1] by (simp add: v1_def)
  from nearest_double_error [OF n2 d2] obtain m2 e2 where
    dd2: "nearest_double (scale_up (100 * m1) e1) (scale_up 1 (- e1)) = Double m2 e2" and m2: "0 < m2"
    and err2: "\<bar>of_int m2 * 2 powi e2 - 100 * v1\<bar> \<le> 100 * v1 * eps"
    unfolding ratio2 by (auto simp: eps_def)
  define v2 :: real where "v2 = of_int m2 * 2 powi e2"
  define r where "r = Math_round (js_times_100 (js_divide p T))"
  have r: "r = \<lfloor>v2 + 1 / 2\<rfloor>"
    using p(1) m1 by (simp add: r_def js_divide_def d1 dd2 Math_round_floor v2_def)
  have a1: "\<bar>Tr * v1 - P\<bar> \<le> P * eps"
  proof -
    have "Tr * v1 - P = Tr * (v1 - P / Tr)" using Tpos by (simp add: field_simps)
    then have "\<bar>Tr * v1 - P\<bar> = Tr * \<bar>v1 - P / Tr\<bar>" using Tpos by (simp add: abs_mult)
    also have "\<dots> \<le> Tr * (P / Tr * eps)"
    proof (rule mult_left_mono)
      show "\<bar>v1 - P / Tr\<bar> \<le> P / Tr * eps" using err1 by (simp only: v1_def)
      show "0 \<le> Tr" using Tpos by simp
    qed
    also have "\<dots> = P * eps" using Tpos by simp
    finally show ?thesis .
  qed
  have v1pos: "0 < v1" using m1 by (simp add: v1_def zero_less_power_int)
  have a1': "Tr * v1 \<le> 2 * P"
  proof -
    have "P * eps \<le> P * 1" using eps(2) Ppos by (simp only: mult_left_mono less_imp_le)
    with a1 show ?thesis by linarith
  qed
  have a2: "\<bar>Tr * v2 - 100 * (Tr * v1)\<bar> \<le> 200 * P * eps"
  proof -
    have "Tr * v2 - 100 * (Tr * v1) = Tr * (v2 - 100 * v1)" by (simp add: algebra_simps)
    then have "\<bar>Tr * v2 - 100 * (Tr * v1)\<bar> = Tr * \<bar>v2 - 100 * v1\<bar>"
      using Tpos by (simp add: abs_mult)
    also have "\<dots> \<le> Tr * (100 * v1 * eps)"
    proof (rule mult_left_mono)
      show "\<bar>v2 - 100 * v1\<bar> \<le> 100 * v1 * eps" using err2 by (simp only: v2_def)
      show "0 \<le> Tr" using Tpos by simp
    qed
    also have "\<dots> = 100 * (Tr * v1) * eps" by simp
    also have "\<dots> \<le> 100 * (2 * P) * eps"
      using a1' eps(1) by (simp add: mult_right_mono)
    finally show ?thesis by simp
  qed
  have small: "600 * P * eps < 1"
  proof -
    have "(of_int (600 * p) :: real) < of_int (2 ^ 53)"
      using p(2) by (simp only: of_int_less_iff)
    then have "600 * P < 2 ^ 53" by (simp add: P_def)
    then show ?thesis by (simp add: eps_def)
  qed
  define A B where "A = Tr * v2" and "B = Tr * v1"
  have close: "\<bar>2 * A - 200 * P\<bar> < 1"
  proof -
    have b1: "\<bar>B - P\<bar> \<le> P * eps" using a1 by (simp only: B_def)
    have b2: "\<bar>A - 100 * B\<bar> \<le> 200 * P * eps" using a2 by (simp only: A_def B_def)
    define c where "c = P * eps"
    have b1': "\<bar>B - P\<bar> \<le> c" using b1 by (simp only: c_def)
    have b2': "\<bar>A - 100 * B\<bar> \<le> 200 * c" using b2 by (simp add: c_def)
    have s': "600 * c < 1" using small by (simp add: c_def)
    from b1' b2' s' show ?thesis by linarith
  qed
  have fl: "of_int r \<le> v2 + 1 / 2" "v2 + 1 / 2 < of_int r + 1"
    unfolding r by linarith+
  have up: "2 * Tr * of_int r - 200 * P - Tr < 1"
  proof -
    have "Tr * of_int r \<le> Tr * (v2 + 1 / 2)"
      using fl(1) Tpos by (simp only: mult_left_mono less_imp_le)
    also have "\<dots> = A + Tr / 2" by (simp add: A_def algebra_simps)
    finally show ?thesis using close by linarith
  qed
  have low: "- 1 < 2 * Tr * of_int r - 200 * P + Tr"
  proof -
    have "Tr * (v2 + 1 / 2) < Tr * (of_int r + 1)"
      using fl(2) Tpos by (simp only: mult_strict_left_mono)
    then have "A + Tr / 2 < Tr * of_int r + Tr" by (simp add: A_def algebra_simps)
    then show ?thesis using close by linarith
  qed
  have "(of_int (2 * T * r - 200 * p - T) :: real) < of_int 1"
    using up by (simp add: P_def Tr_def)
  then have i1: "2 * T * r - 200 * p - T < 1" by (simp only: of_int_less_iff)
  have "(of_int (- 1) :: real) < of_int (2 * T * r - 200 * p + T)"
    using low by (simp add: P_def Tr_def)
  then have i2: "- 1 < 2 * T * r - 200 * p + T" by (simp only: of_int_less_iff)
  from i1 i2 have "\<bar>2 * (r * T - 100 * p)\<bar> \<le> T" by (simp add: algebra_simps abs_le_iff)
  then show ?thesis by (simp add: r_def)
qed

lemma weekPresent_count:
  "weekPresent (Some recs) =
     int (length (filter (\<lambda>a. row_status a = ''present'' \<or> row_status a = ''late'') recs))"
  by (simp add: weekPresent_def or_zero_def length_opt_def)

lemma rate_zero_present: "Math_round (js_times_100 (js_divide 0 T)) = 0"
  by (simp add: js_divide_def Math_round.simps)

lemma nearest_unique:
  fixes r N D :: int
  assumes "0 < D" "r * D \<le> N" "N - D \<le> r * D" "N mod D \<noteq> 0"
  shows "r = N div D"
proof -
  define q s where "q = N div D" and "s = N mod D"
  have N: "N = q * D + s" by (simp add: q_def s_def)
  have s0: "0 \<le> N mod D" "N mod D < D" using assms(1) by simp_all
  have s: "0 < s" "s < D" unfolding s_def using s0 assms(4) by linarith+
  have "r * D < (q + 1) * D" using assms(2) s(2) by (simp add: N algebra_simps)
  then have a: "r < q + 1" using assms(1) by (simp add: mult_less_cancel_right)
  have "(q - 1) * D < r * D" using assms(3) s(1) by (simp add: N algebra_simps)
  then have b: "q - 1 < r" using assms(1) by (simp add: mult_less_cancel_right)
  from a b show ?thesis by (simp add: q_def)
qed

lemma rate_85_of_100: "Math_round (js_times_100 (js_divide 85 100)) = 85"
  by code_simp

text \<open>
  An exact tie can fall below the half: 23 of 40 is 57.5 per cent, the product of
  doubles is just under it, and the rate of 8 employees with 23 such rows is 57.
\<close>

lemma rate_23_of_40: "Math_round (js_times_100 (js_divide 23 40)) = 57"
  by code_simp

text \<open>
  With \<open>E > 0\<close> active employees and the rows of the week, the rate is
  \<open>Math.round((p / (E * 5)) * 100)\<close>, with \<open>p\<close> the number of rows whose status is
  \<open>present\<close> or \<open>late\<close>, and it differs from the exact percentage
  \<open>100 * p / (E * 5)\<close> by at most one half.  Unless the exact percentage lies half-way
  between two integers, the rate is that percentage rounded half up,
  \<open>(200 * p + E * 5) div (2 * (E * 5))\<close>; half-way, the product of doubles may fall on
  either side.  The counts are those a browser can hold: an array has fewer than
  \<open>2^32\<close> elements, and \<open>E * 5\<close> is below \<open>2^53\<close>.
\<close>

lemma rate_within_half_of_percentage:
  "(0 < E \<and> E * 5 < 2 ^ 53 \<and> length recs < 2 ^ 32 \<longrightarrow>
      attendanceRate (Some E) (Some recs)
        = Math_round (js_times_100 (js_divide (weekPresent (Some recs)) (E * 5)))
      \<and> \<bar>2 * (attendanceRate (Some E) (Some recs) * (E * 5) - 100 * weekPresent (Some recs))\<bar> \<le> E * 5
      \<and> ((200 * weekPresent (Some recs) + E * 5) mod (2 * (E * 5)) \<noteq> 0 \<longrightarrow>
           attendanceRate (Some E) (Some recs)
             = (200 * weekPresent (Some recs) + E * 5) div (2 * (E * 5))))
   \<and> weekPresent (Some recs) =
       int (length (filter (\<lambda>a. row_status a = ''present'' \<or> row_status a = ''late'') recs))
   \<and> (weekPresent (Some recs) = 85 \<longrightarrow> attendanceRate (Some 20) (Some recs) = 85)"
proof -
  define p T where "p = weekPresent (Some recs)" and "T = E * 5"
  have near: "attendanceRate (Some E) (Some recs) = Math_round (js_times_100 (js_divide p T))
      \<and> \<bar>2 * (attendanceRate (Some E) (Some recs) * T - 100 * p)\<bar> \<le> T
      \<and> ((200 * p + T) mod (2 * T) \<noteq> 0 \<longrightarrow>
           attendanceRate (Some E) (Some recs) = (200 * p + T) div (2 * T))"
    if h: "0 < E \<and> E * 5 < 2 ^ 53 \<and> length recs < 2 ^ 32"
  proof -
    have Tpos: "0 < T" using h by (simp add: T_def)
    have rate: "attendanceRate (Some E) (Some recs) = Math_round (js_times_100 (js_divide p T))"
      using Tpos by (simp add: attendanceRate_def weekTotal_def or_zero_def p_def T_def)
    have p0: "0 \<le> p" by (simp add: p_def weekPresent_count)
    have "p \<le> int (length recs)" by (simp add: p_def weekPresent_count)
    also have "\<dots> < 2 ^ 32" using h by simp
    finally have pb: "600 * p < 2 ^ 53" by simp
    have a: "\<bar>2 * (Math_round (js_times_100 (js_divide p T)) * T - 100 * p)\<bar> \<le> T"
    proof (cases "p = 0")
      case True
      then show ?thesis using Tpos by (simp add: rate_zero_present)
    next
      case False
      with p0 have "0 < p" by simp
      from rate_nearest [OF this pb Tpos] show ?thesis .
    qed
    define r where "r = Math_round (js_times_100 (js_divide p T))"
    have b: "r = (200 * p + T) div (2 * T)" if nt: "(200 * p + T) mod (2 * T) \<noteq> 0"
    proof (rule nearest_unique [OF _ _ _ nt])
      show "0 < 2 * T" using Tpos by simp
      show "r * (2 * T) \<le> 200 * p + T" using a by (simp add: r_def abs_le_iff algebra_simps)
      show "200 * p + T - 2 * T \<le> r * (2 * T)" using a by (simp add: r_def abs_le_iff algebra_simps)
    qed
    from a b show ?thesis by (simp add: rate r_def)
  qed
  have ex: "weekPresent (Some recs) = 85 \<longrightarrow> attendanceRate (Some 20) (Some recs) = 85"
    by (simp add: attendanceRate_def weekTotal_def or_zero_def rate_85_of_100)
  from near ex weekPresent_count [of recs] show ?thesis
    unfolding p_def T_def by blast
qed

text \<open>
  Claim C9.  The weekly rate is to be the percentage of \<open>present\<close> and \<open>late\<close> rows
  among \<open>E * 5\<close>, rounded and not truncated; with \<open>E = 20\<close> and 85 such rows it is 85,
  and the code gives 85.  The code divides first and multiplies by 100 afterwards,
  both in doubles.  With \<open>E = 8\<close> and 23 such rows the percentage is 57.5 exactly and
  rounds to 58; but 23/40 is not a double, the quotient is rounded to the double
  \<open>5179139571476070 * 2^-53\<close>, a hundred times that is rounded to the double
  \<open>8092405580431359 * 2^-47\<close>, which is below 57.5, and \<open>Math.round\<close> gives 57, the
  truncated percentage.
\<close>

theorem C9_exact_half_is_rounded_down:
  "weekPresent (Some (replicate 23 \<lparr>row_status = ''present''\<rparr>)) = 23
   \<and> weekTotal (Some 8) = 40
   \<and> 2 * (100 * weekPresent (Some (replicate 23 \<lparr>row_status = ''present''\<rparr>))) = 115 * weekTotal (Some 8)
   \<and> (200 * weekPresent (Some (replicate 23 \<lparr>row_status = ''present''\<rparr>)) + weekTotal (Some 8))
        div (2 * weekTotal (Some 8)) = 58
   \<and> js_divide 23 40 = Double 5179139571476070 (- 53)
   \<and> js_times_100 (js_divide 23 40) = Double 8092405580431359 (- 47)
   \<and> double_value (js_times_100 (js_divide 23 40)) < 115 / 2
   \<and> attendanceRate (Some 8) (Some (replicate 23 \<lparr>row_status = ''present''\<rparr>)) = 57
   \<and> attendanceRate (Some 20) (Some (replicate 85 \<lparr>row_status = ''present''\<rparr>)) = 85"
proof -
  have p: "weekPresent (Some (replicate 23 \<lparr>row_status = ''present''\<rparr>)) = 23"
    by (simp add: weekPresent_count)
  have t: "weekTotal (Some 8) = 40"
    by (simp add: weekTotal_def or_zero_def)
  have q: "js_divide 23 40 = Double 5179139571476070 (- 53)"
    by code_simp
  have m: "js_times_100 (js_divide 23 40) = Double 8092405580431359 (- 47)"
    by code_simp
  have v: "double_value (js_times_100 (js_divide 23 40)) < 115 / 2"
    unfolding m by (simp add: power_int_minus field_simps)
  have r: "attendanceRate (Some 8) (Some (replicate 23 \<lparr>row_status = ''present''\<rparr>)) = 57"
    by (simp add: attendanceRate_def t p rate_23_of_40)
  have e: "attendanceRate (Some 20) (Some (replicate 85 \<lparr>row_status = ''present''\<rparr>)) = 85"
    by (simp add: attendanceRate_def weekTotal_def or_zero_def weekPresent_count rate_85_of_100)
  show ?thesis
    unfolding p t using q m v r e by simp
qed

end
